theory Spec2Isabelle
  imports Main
begin

section \<open>Strings\<close>

text \<open>
  A JavaScript string is a sequence of UTF-16 code units; a code unit is modelled by its
  number. \<open>js\<close> turns an ASCII literal of the theory into such a sequence.
\<close>

type_synonym jsstring = "int list"

definition js :: "string \<Rightarrow> jsstring" where
  "js cs = map of_char cs"

text \<open>
  The characters that \<open>String.prototype.trim\<close> removes and that \<open>\s\<close> matches: the
  ECMAScript white space characters and line terminators.
\<close>

definition isWhiteSpace :: "int \<Rightarrow> bool" where
  "isWhiteSpace c =
     (c = 9 \<or> c = 10 \<or> c = 11 \<or> c = 12 \<or> c = 13 \<or> c = 32 \<or> c = 160 \<or> c = 5760 \<or>
      (8192 \<le> c \<and> c \<le> 8202) \<or> c = 8232 \<or> c = 8233 \<or> c = 8239 \<or> c = 8287 \<or>
      c = 12288 \<or> c = 65279)"

definition trim :: "jsstring \<Rightarrow> jsstring" where
  "trim s = rev (dropWhile isWhiteSpace (rev (dropWhile isWhiteSpace s)))"

text \<open>Every occurrence of the character \<open>c\<close> replaced by the text \<open>rep\<close>.\<close>

definition replaceChar :: "int \<Rightarrow> jsstring \<Rightarrow> jsstring \<Rightarrow> jsstring" where
  "replaceChar c rep s = concat (map (\<lambda>x. if x = c then rep else [x]) s)"

text \<open>A text that \<open>trim\<close> leaves as it is: it neither starts nor ends with white space.\<close>

definition trimmed :: "jsstring \<Rightarrow> bool" where
  "trimmed s = (s = [] \<or> (\<not> isWhiteSpace (hd s) \<and> \<not> isWhiteSpace (last s)))"

text \<open>An argument as a caller may pass it: a string, or any value that is not a string.\<close>

datatype jsval = Str jsstring | NotStr

section \<open>Regular expressions\<close>

text \<open>
  The patterns of the source, with the backtracking semantics of ECMAScript: \<open>ends r s i\<close>
  lists the positions at which a match of \<open>r\<close> that starts at position \<open>i\<close> of \<open>s\<close> can end,
  in the order in which the matcher tries them. A greedy star tries one more iteration
  before it tries to stop, \<open>r?\<close> tries \<open>r\<close> before it tries to skip it, and an iteration
  that consumes nothing is rejected.
\<close>

datatype re =
  Eps | Sat "int \<Rightarrow> bool" | Seq re re | Star re | Opt re | NotAhead re | WordB

definition isWordChar :: "int \<Rightarrow> bool" where
  "isWordChar c = ((48 \<le> c \<and> c \<le> 57) \<or> (65 \<le> c \<and> c \<le> 90) \<or> c = 95 \<or> (97 \<le> c \<and> c \<le> 122))"

definition wordAt :: "jsstring \<Rightarrow> nat \<Rightarrow> bool" where
  "wordAt s i = (i < length s \<and> isWordChar (s ! i))"

function ends :: "re \<Rightarrow> jsstring \<Rightarrow> nat \<Rightarrow> nat list" where
  "ends Eps s i = [i]"
| "ends (Sat P) s i = (if i < length s \<and> P (s ! i) then [Suc i] else [])"
| "ends (Seq a b) s i = concat (map (\<lambda>j. ends b s j) (ends a s i))"
| "ends (Star a) s i =
     concat (map (\<lambda>j. ends (Star a) s j) (filter (\<lambda>j. i < j \<and> j \<le> length s) (ends a s i))) @ [i]"
| "ends (Opt a) s i = filter (\<lambda>j. i < j) (ends a s i) @ [i]"
| "ends (NotAhead a) s i = (if ends a s i = [] then [i] else [])"
| "ends WordB s i = (if (0 < i \<and> wordAt s (i - 1)) \<noteq> wordAt s i then [i] else [])"
  by pat_completeness auto
termination
  by (relation "measures [\<lambda>(r, s, i). size r, \<lambda>(r, s, i). length s - i]") auto

text \<open>
  \<open>RegExpBuiltinExec\<close>: the leftmost match at or after \<open>lastIndex\<close>, as the pair of its
  start and its end; \<open>None\<close> when there is none.
\<close>

function search :: "re \<Rightarrow> jsstring \<Rightarrow> nat \<Rightarrow> (nat \<times> nat) option" where
  "search r s i =
     (if length s < i then None
      else (case ends r s i of
              e # es \<Rightarrow> Some (i, e)
            | [] \<Rightarrow> search r s (Suc i)))"
  by pat_completeness auto
termination
  by (relation "measure (\<lambda>(r, s, i). Suc (length s) - i)") auto

text \<open>
  \<open>s.replace(r, rep)\<close> for a pattern with the \<open>g\<close> flag and a replacement text without
  \<open>$\<close>: \<open>src\<close> is the position up to which the subject is already copied, \<open>li\<close> is
  \<open>lastIndex\<close>, which moves one further after an empty match.
\<close>

function replaceFrom :: "re \<Rightarrow> jsstring \<Rightarrow> jsstring \<Rightarrow> nat \<Rightarrow> nat \<Rightarrow> jsstring" where
  "replaceFrom r rep s src li =
     (case search r s li of
        None \<Rightarrow> drop src s
      | Some (st, en) \<Rightarrow>
          take (st - src) (drop src s) @ rep @
          replaceFrom r rep s en (if en \<le> st then Suc st else en))"
  by pat_completeness auto
termination
proof (relation "measure (\<lambda>(r, rep, s, src, li). Suc (length s) - li)")
  show "wf (measure (\<lambda>(r, rep, s, src, li). Suc (length s) - li))"
    by simp
next
  fix r :: re and rep s :: jsstring and src li :: nat and x2 :: "nat \<times> nat" and st en :: nat
  assume found: "search r s li = Some x2" and x2: "(st, en) = x2"
  have bounds: "search r s i = Some (a, b) \<Longrightarrow> i \<le> a \<and> a \<le> length s" for i a b
  proof (induction r s i rule: search.induct)
    case (1 r s i)
    show ?case
    proof (cases "length s < i")
      case True
      with "1.prems" show ?thesis by simp
    next
      case False
      show ?thesis
      proof (cases "ends r s i")
        case Nil
        with False "1.prems" have "search r s (Suc i) = Some (a, b)" by simp
        with "1.IH"(1)[OF False Nil] show ?thesis by simp
      next
        case (Cons e es)
        with False "1.prems" show ?thesis by simp
      qed
    qed
  qed
  from found x2 have "search r s li = Some (st, en)" by simp
  from bounds[OF this] have "li \<le> st" and "st \<le> length s" by simp_all
  then have "Suc (length s) - (if en \<le> st then Suc st else en) < Suc (length s) - li"
    by (simp split: if_splits) arith
  then show "((r, rep, s, en, if en \<le> st then Suc st else en), r, rep, s, src, li)
       \<in> measure (\<lambda>(r, rep, s, src, li). Suc (length s) - li)"
    by simp
qed

declare search.simps [simp del]

declare replaceFrom.simps [simp del]

definition replaceAll :: "re \<Rightarrow> jsstring \<Rightarrow> jsstring \<Rightarrow> jsstring" where
  "replaceAll r rep s = replaceFrom r rep s 0 0"

text \<open>
  \<open>r.test(s)\<close> for a pattern with the \<open>g\<close> flag: the search starts at the pattern's
  \<open>lastIndex\<close>, a match leaves \<open>lastIndex\<close> at its end, a failure resets it to 0. The
  result is paired with the new \<open>lastIndex\<close>.
\<close>

definition test_g :: "re \<Rightarrow> jsstring \<Rightarrow> nat \<Rightarrow> bool \<times> nat" where
  "test_g r s lastIndex =
     (case search r s lastIndex of
        None \<Rightarrow> (False, 0)
      | Some (st, en) \<Rightarrow> (True, en))"

text \<open>Pattern syntax: literals, literals under the \<open>i\<close> flag, \<open>r+\<close>, sequences.\<close>

definition upperAscii :: "int \<Rightarrow> int" where
  "upperAscii c = (if 97 \<le> c \<and> c \<le> 122 then c - 32 else c)"

definition lit :: "int \<Rightarrow> re" where
  "lit c = Sat (\<lambda>x. x = c)"

definition notLit :: "int \<Rightarrow> re" where
  "notLit c = Sat (\<lambda>x. x \<noteq> c)"

definition litI :: "int \<Rightarrow> re" where
  "litI c = Sat (\<lambda>x. upperAscii x = upperAscii c)"

fun seqs :: "re list \<Rightarrow> re" where
  "seqs [] = Eps"
| "seqs [r] = r"
| "seqs (r # rs) = Seq r (seqs rs)"

definition strI :: "string \<Rightarrow> re" where
  "strI cs = seqs (map litI (js cs))"

definition many1 :: "re \<Rightarrow> re" where
  "many1 r = Seq r (Star r)"

definition isControl :: "int \<Rightarrow> bool" where
  "isControl c = ((0 \<le> c \<and> c \<le> 31) \<or> c = 127)"

section \<open>TaskValidator (task-model.js, in src/unnamed/part_000)\<close>

datatype verror = TitleRequired | TitleBlank | TitleTooLong | AuthorTooLong

record validation =
  isValid :: bool
  errors :: "verror list"

definition validateBookTitle :: "jsstring \<Rightarrow> validation" where
  "validateBookTitle title =
     (let errs =
        (if title = [] then [TitleRequired]
         else (if length (trim title) = 0 then [TitleBlank] else []) @
              (if length title > 100 then [TitleTooLong] else []))
      in \<lparr>isValid = (length errs = 0), errors = errs\<rparr>)"

definition validateAuthor :: "jsstring \<Rightarrow> validation" where
  "validateAuthor author =
     (let errs = (if author \<noteq> [] \<and> length author > 50 then [AuthorTooLong] else [])
      in \<lparr>isValid = (length errs = 0), errors = errs\<rparr>)"

definition validateTaskData_tv :: "jsstring \<Rightarrow> jsstring \<Rightarrow> validation" where
  "validateTaskData_tv bookTitle author =
     (let allErrors = errors (validateBookTitle bookTitle) @ errors (validateAuthor author)
      in \<lparr>isValid = (length allErrors = 0), errors = allErrors\<rparr>)"

fun TaskValidator_sanitizeInput :: "jsval \<Rightarrow> jsstring" where
  "TaskValidator_sanitizeInput NotStr = []"
| "TaskValidator_sanitizeInput (Str input) =
     replaceAll (lit 47) (js ''&#x2F;'')
       (replaceAll (lit 39) (js ''&#x27;'')
         (replaceAll (lit 34) (js ''&quot;'')
           (replaceAll (lit 62) (js ''&gt;'')
             (replaceAll (lit 60) (js ''&lt;'') (trim input)))))"

record prepared =
  p_bookTitle :: jsstring
  p_author :: jsstring
  p_validation :: validation

definition prepareTaskData :: "jsval \<Rightarrow> jsval \<Rightarrow> prepared" where
  "prepareTaskData bookTitle author =
     (let sanitizedTitle = TaskValidator_sanitizeInput bookTitle;
          sanitizedAuthor = TaskValidator_sanitizeInput author
      in \<lparr>p_bookTitle = sanitizedTitle, p_author = sanitizedAuthor,
          p_validation = validateTaskData_tv sanitizedTitle sanitizedAuthor\<rparr>)"

section \<open>Task (task-model.js, in src/unnamed/part_000)\<close>

text \<open>
  A \<open>Date\<close> object is its time value in milliseconds; the ISO-8601 text that
  \<open>JSON.stringify\<close> writes for it is the text of that time value. A task record carries
  either kind of time stamp: \<open>Date\<close> objects in memory, ISO text in the persisted array.
\<close>

datatype jsdate = Date int

datatype isotext = Iso int

record 't task_rec =
  id_task :: jsstring
  bookTitle :: jsstring
  author :: jsstring
  status :: jsstring
  createdAt :: 't
  completedAt :: "'t option"

type_synonym task_data = "jsdate task_rec"

type_synonym stored_task = "isotext task_rec"

datatype Task = Task task_data

text \<open>
  \<open>generateUUID\<close> fills the template with hexadecimal digits; \<open>rnd k\<close> is the value of
  \<open>Math.random() * 16 | 0\<close> at the \<open>k\<close>-th call.
\<close>

definition hexDigit :: "nat \<Rightarrow> int" where
  "hexDigit v = (if v < 10 then 48 + int v else 87 + int v)"

fun fillTemplate :: "string \<Rightarrow> (nat \<Rightarrow> nat) \<Rightarrow> nat \<Rightarrow> jsstring" where
  "fillTemplate [] rnd k = []"
| "fillTemplate (c # cs) rnd k =
     (if c = CHR ''x'' then hexDigit (rnd k mod 16) # fillTemplate cs rnd (Suc k)
      else if c = CHR ''y'' then hexDigit ((rnd k mod 16) mod 4 + 8) # fillTemplate cs rnd (Suc k)
      else of_char c # fillTemplate cs rnd k)"

definition generateUUID :: "(nat \<Rightarrow> nat) \<Rightarrow> jsstring" where
  "generateUUID rnd = fillTemplate ''xxxxxxxx-xxxx-4xxx-yxxx-xxxxxxxxxxxx'' rnd 0"

text \<open>The constructor; \<open>now\<close> is the time value of \<open>new Date()\<close>.\<close>

definition newTask :: "jsstring \<Rightarrow> jsstring \<Rightarrow> (nat \<Rightarrow> nat) \<Rightarrow> int \<Rightarrow> Task" where
  "newTask title auth rnd now =
     Task \<lparr>id_task = generateUUID rnd, bookTitle = title, author = auth, status = js ''active'',
           createdAt = Date now, completedAt = None\<rparr>"

fun complete :: "int \<Rightarrow> Task \<Rightarrow> Task" where
  "complete now (Task t) = Task (t\<lparr>status := js ''completed'', completedAt := Some (Date now)\<rparr>)"

fun isActive :: "Task \<Rightarrow> bool" where
  "isActive (Task t) = (status t = js ''active'')"

fun isCompleted :: "Task \<Rightarrow> bool" where
  "isCompleted (Task t) = (status t = js ''completed'')"

fun toJSON :: "Task \<Rightarrow> task_data" where
  "toJSON (Task t) =
     \<lparr>id_task = id_task t, bookTitle = bookTitle t, author = author t, status = status t,
      createdAt = createdAt t, completedAt = completedAt t\<rparr>"

text \<open>\<open>new Date(d)\<close> for a \<open>Date\<close> object \<open>d\<close> copies its time value.\<close>

fun newDate :: "jsdate \<Rightarrow> jsdate" where
  "newDate (Date t) = Date t"

definition fromJSON :: "task_data \<Rightarrow> (nat \<Rightarrow> nat) \<Rightarrow> int \<Rightarrow> Task" where
  "fromJSON d rnd now =
     (case newTask (bookTitle d) (author d) rnd now of
        Task task \<Rightarrow>
          Task (task\<lparr>id_task := id_task d, status := status d, createdAt := newDate (createdAt d),
                     completedAt := (case completedAt d of
                                       Some c \<Rightarrow> Some (newDate c)
                                     | None \<Rightarrow> None)\<rparr>))"

section \<open>The browser's Storage objects\<close>

text \<open>
  The text stored under a key is represented by what \<open>JSON.parse\<close> makes of it: the empty
  text, a text that \<open>JSON.parse\<close> rejects, a text that parses to a value that is not an
  array, or a text that parses to an array of task records in the persisted layout.
  Whether \<open>setItem\<close> accepts a write (quota, private mode) is the browser's decision;
  \<open>accepts\<close> records it, and a refused write throws.
\<close>

datatype item = EmptyText | Unparsable | NotArray | Collection "stored_task list"

datatype exn = SyntaxError | TypeError | QuotaExceededError

record webstore =
  items :: "string \<Rightarrow> item option"
  accepts :: "string \<Rightarrow> item \<Rightarrow> bool"

definition getItem :: "webstore \<Rightarrow> string \<Rightarrow> item option" where
  "getItem b k = items b k"

definition setItem :: "webstore \<Rightarrow> string \<Rightarrow> item \<Rightarrow> exn + webstore" where
  "setItem b k v =
     (if accepts b k v then Inr (b\<lparr>items := (items b)(k := Some v)\<rparr>)
      else Inl QuotaExceededError)"

definition removeItem :: "webstore \<Rightarrow> string \<Rightarrow> webstore" where
  "removeItem b k = b\<lparr>items := (items b)(k := None)\<rparr>"

section \<open>StorageManager (js/storage-manager.js)\<close>

text \<open>
  The state that the adapter's methods read and write: its own flag and the two Storage
  objects of the browser.
\<close>

record storage_state =
  fallbackToSession :: bool
  localStorage :: webstore
  sessionStorage :: webstore

datatype storage_ref = LocalStorage | SessionStorage

fun storage_of :: "storage_ref \<Rightarrow> storage_state \<Rightarrow> webstore" where
  "storage_of LocalStorage st = localStorage st"
| "storage_of SessionStorage st = sessionStorage st"

fun storage_put :: "storage_ref \<Rightarrow> webstore \<Rightarrow> storage_state \<Rightarrow> storage_state" where
  "storage_put LocalStorage b st = st\<lparr>localStorage := b\<rparr>"
| "storage_put SessionStorage b st = st\<lparr>sessionStorage := b\<rparr>"

definition storageKey :: string where
  "storageKey = ''reading-tasks''"

definition storage_test :: string where
  "storage_test = ''__storage_test__''"

definition isStorageAvailable :: "storage_state \<Rightarrow> bool \<times> storage_state" where
  "isStorageAvailable st =
     (case setItem (localStorage st) storage_test Unparsable of
        Inl e \<Rightarrow> (False, st)
      | Inr b \<Rightarrow> (True, st\<lparr>localStorage := removeItem b storage_test\<rparr>))"

definition getStorage :: "storage_state \<Rightarrow> storage_ref \<times> storage_state" where
  "getStorage st =
     (case isStorageAvailable st of
        (True, st1) \<Rightarrow> (LocalStorage, st1)
      | (False, st1) \<Rightarrow> (SessionStorage, st1\<lparr>fallbackToSession := True\<rparr>))"

datatype parsed = ParsedArray "stored_task list" | ParsedOther

fun JSON_parse :: "item \<Rightarrow> exn + parsed" where
  "JSON_parse EmptyText = Inl SyntaxError"
| "JSON_parse Unparsable = Inl SyntaxError"
| "JSON_parse NotArray = Inr ParsedOther"
| "JSON_parse (Collection ts) = Inr (ParsedArray ts)"

fun dateOfIso :: "isotext \<Rightarrow> jsdate" where
  "dateOfIso (Iso t) = Date t"

fun toISOString :: "jsdate \<Rightarrow> isotext" where
  "toISOString (Date t) = Iso t"

definition revive :: "stored_task \<Rightarrow> task_data" where
  "revive task =
     \<lparr>id_task = id_task task, bookTitle = bookTitle task, author = author task,
      status = status task, createdAt = dateOfIso (createdAt task),
      completedAt = (case completedAt task of
                       Some c \<Rightarrow> Some (dateOfIso c)
                     | None \<Rightarrow> None)\<rparr>"

definition JSON_stringify :: "task_data list \<Rightarrow> item" where
  "JSON_stringify tasks =
     Collection (map (\<lambda>t. \<lparr>id_task = id_task t, bookTitle = bookTitle t, author = author t,
                            status = status t, createdAt = toISOString (createdAt t),
                            completedAt = map_option toISOString (completedAt t)\<rparr>) tasks)"

text \<open>The body of \<open>loadTasks\<close>'s \<open>try\<close> block; an exception is the value \<open>Inl\<close>.\<close>

definition loadTasks_try :: "storage_state \<Rightarrow> (exn + task_data list) \<times> storage_state" where
  "loadTasks_try st =
     (let (storage, st1) = getStorage st in
      (case getItem (storage_of storage st1) storageKey of
         None \<Rightarrow> (Inr [], st1)
       | Some tasksJson \<Rightarrow>
           if tasksJson = EmptyText then (Inr [], st1)
           else (case JSON_parse tasksJson of
                   Inl e \<Rightarrow> (Inl e, st1)
                 | Inr ParsedOther \<Rightarrow> (Inl TypeError, st1)
                 | Inr (ParsedArray tasks) \<Rightarrow> (Inr (map revive tasks), st1))))"

definition loadTasks :: "storage_state \<Rightarrow> task_data list \<times> storage_state" where
  "loadTasks st =
     (case loadTasks_try st of
        (Inr tasks, st1) \<Rightarrow> (tasks, st1)
      | (Inl error, st1) \<Rightarrow> ([], st1))"


definition saveTasks :: "storage_state \<Rightarrow> task_data list \<Rightarrow> bool \<times> storage_state" where
  "saveTasks st tasks =
     (let (storage, st1) = getStorage st;
          tasksJson = JSON_stringify tasks
      in (case setItem (storage_of storage st1) storageKey tasksJson of
            Inr b \<Rightarrow> (True, storage_put storage b st1)
          | Inl error \<Rightarrow> (False, st1)))"

definition validateTaskData :: "task_data \<Rightarrow> bool" where
  "validateTaskData task =
     (if length (id_task task) = 0 then False
      else if length (trim (bookTitle task)) = 0 then False
      else if status task \<notin> set [js ''active'', js ''completed''] then False
      else if length (bookTitle task) > 100 then False
      else if author task \<noteq> [] \<and> length (author task) > 50 then False
      else True)"

definition sanitizeString :: "jsstring \<Rightarrow> jsstring" where
  "sanitizeString str =
     (let sanitized = trim str;
          sanitized = replaceAll (Sat isControl) [] sanitized;
          sanitized = replaceAll (seqs [lit 60, Star (notLit 62), lit 62]) [] sanitized;
          sanitized = replaceAll (many1 (Sat isWhiteSpace)) (js '' '') sanitized
      in sanitized)"

definition sanitizeTaskData :: "task_data \<Rightarrow> task_data" where
  "sanitizeTaskData task =
     \<lparr>id_task = sanitizeString (id_task task),
      bookTitle = sanitizeString (bookTitle task),
      author = (if author task \<noteq> [] then sanitizeString (author task) else []),
      status = status task,
      createdAt = createdAt task,
      completedAt = completedAt task\<rparr>"

text \<open>\<open>Array.prototype.findIndex\<close>; \<open>None\<close> stands for \<open>-1\<close>.\<close>

fun findIndex :: "('a \<Rightarrow> bool) \<Rightarrow> 'a list \<Rightarrow> nat option" where
  "findIndex P [] = None"
| "findIndex P (x # xs) = (if P x then Some 0 else map_option Suc (findIndex P xs))"

definition saveTask :: "storage_state \<Rightarrow> task_data \<Rightarrow> bool \<times> storage_state" where
  "saveTask st task =
     (if \<not> validateTaskData task then (False, st)
      else
        (let (tasks, st1) = loadTasks st;
             existingIndex = findIndex (\<lambda>t. id_task t = id_task task) tasks;
             sanitizedTask = sanitizeTaskData task
         in (case existingIndex of
               Some i \<Rightarrow> saveTasks st1 (tasks[i := sanitizedTask])
             | None \<Rightarrow> saveTasks st1 (tasks @ [sanitizedTask]))))"

text \<open>
  The object that \<open>updateTask\<close> merges into the stored record; the registry passes the two
  keys \<open>status\<close> and \<open>completedAt\<close>.
\<close>

record updates =
  u_status :: jsstring
  u_completedAt :: "jsdate option"

definition merge :: "task_data \<Rightarrow> updates \<Rightarrow> task_data" where
  "merge t u = t\<lparr>status := u_status u, completedAt := u_completedAt u\<rparr>"

definition updateTask :: "storage_state \<Rightarrow> jsstring \<Rightarrow> updates \<Rightarrow> bool \<times> storage_state" where
  "updateTask st taskId u =
     (let (tasks, st1) = loadTasks st in
      (case findIndex (\<lambda>t. id_task t = taskId) tasks of
         None \<Rightarrow> (False, st1)
       | Some taskIndex \<Rightarrow> saveTasks st1 (tasks[taskIndex := merge (tasks ! taskIndex) u])))"

definition deleteTask :: "storage_state \<Rightarrow> jsstring \<Rightarrow> bool \<times> storage_state" where
  "deleteTask st taskId =
     (let (tasks, st1) = loadTasks st;
          filteredTasks = filter (\<lambda>t. id_task t \<noteq> taskId) tasks
      in if length filteredTasks = length tasks then (False, st1)
         else saveTasks st1 filteredTasks)"

definition clearAllTasks :: "storage_state \<Rightarrow> bool \<times> storage_state" where
  "clearAllTasks st =
     (let (storage, st1) = getStorage st
      in (True, storage_put storage (removeItem (storage_of storage st1) storageKey) st1))"

record storage_info =
  taskCount :: nat
  storageType :: storage_ref
  isAvailable :: bool

definition getStorageInfo :: "storage_state \<Rightarrow> storage_info \<times> storage_state" where
  "getStorageInfo st =
     (let (storage, st1) = getStorage st;
          (tasks, st2) = loadTasks st1;
          (available, st3) = isStorageAvailable st2
      in (\<lparr>taskCount = length tasks,
           storageType = (if fallbackToSession st2 then SessionStorage else LocalStorage),
           isAvailable = available\<rparr>, st3))"

section \<open>TaskManager (js/task-manager.js)\<close>

text \<open>
  The registry's state is its array \<open>tasks\<close> (the in-memory mirror), passed next to the
  state of the adapter it holds. A \<open>throw\<close> inside a method's \<open>try\<close> block is the value
  \<open>Inl\<close> of the function named \<open>_try\<close>; the \<open>catch\<close> turns it into \<open>null\<close> or \<open>false\<close>.
\<close>

datatype tm_error =
  ValidationFailed "verror list" | SaveFailed | NotFound | AlreadyCompleted | UpdateFailed
  | DeleteFailed

definition loadTasks_tm :: "storage_state \<Rightarrow> task_data list \<times> storage_state" where
  "loadTasks_tm st = loadTasks st"

definition getTask :: "task_data list \<Rightarrow> jsstring \<Rightarrow> task_data option" where
  "getTask tasks taskId = find (\<lambda>task. id_task task = taskId) tasks"

definition addTask_try ::
  "task_data list \<Rightarrow> storage_state \<Rightarrow> jsval \<Rightarrow> jsval \<Rightarrow> (nat \<Rightarrow> nat) \<Rightarrow> int \<Rightarrow>
   (tm_error + task_data) \<times> task_data list \<times> storage_state" where
  "addTask_try tasks st title auth rnd now =
     (let prepared = prepareTaskData title auth in
      if \<not> isValid (p_validation prepared)
      then (Inl (ValidationFailed (errors (p_validation prepared))), tasks, st)
      else
        (let task = newTask (p_bookTitle prepared) (p_author prepared) rnd now;
             tasks1 = tasks @ [toJSON task];
             (saved, st1) = saveTask st (toJSON task)
         in if \<not> saved
            then (Inl SaveFailed,
                  filter (\<lambda>t. id_task t \<noteq> id_task (toJSON task)) tasks1, st1)
            else (Inr (toJSON task), tasks1, st1)))"

definition addTask ::
  "task_data list \<Rightarrow> storage_state \<Rightarrow> jsval \<Rightarrow> jsval \<Rightarrow> (nat \<Rightarrow> nat) \<Rightarrow> int \<Rightarrow>
   task_data option \<times> task_data list \<times> storage_state" where
  "addTask tasks st title auth rnd now =
     (case addTask_try tasks st title auth rnd now of
        (Inr created, tasks1, st1) \<Rightarrow> (Some created, tasks1, st1)
      | (Inl error, tasks1, st1) \<Rightarrow> (None, tasks1, st1))"

definition completeTask_try ::
  "task_data list \<Rightarrow> storage_state \<Rightarrow> jsstring \<Rightarrow> (nat \<Rightarrow> nat) \<Rightarrow> int \<Rightarrow>
   (tm_error + task_data) \<times> task_data list \<times> storage_state" where
  "completeTask_try tasks st taskId rnd now =
     (case findIndex (\<lambda>t. id_task t = taskId) tasks of
        None \<Rightarrow> (Inl NotFound, tasks, st)
      | Some taskIndex \<Rightarrow>
          (let taskData = tasks ! taskIndex in
           if status taskData = js ''completed'' then (Inl AlreadyCompleted, tasks, st)
           else
             (let task = complete now (fromJSON taskData rnd now);
                  updatedTaskData = toJSON task;
                  tasks1 = tasks[taskIndex := updatedTaskData];
                  (saved, st1) =
                    updateTask st taskId
                      \<lparr>u_status = js ''completed'',
                       u_completedAt = completedAt updatedTaskData\<rparr>
              in if \<not> saved then (Inl UpdateFailed, tasks1[taskIndex := taskData], st1)
                 else (Inr updatedTaskData, tasks1, st1))))"

definition completeTask ::
  "task_data list \<Rightarrow> storage_state \<Rightarrow> jsstring \<Rightarrow> (nat \<Rightarrow> nat) \<Rightarrow> int \<Rightarrow>
   task_data option \<times> task_data list \<times> storage_state" where
  "completeTask tasks st taskId rnd now =
     (case completeTask_try tasks st taskId rnd now of
        (Inr updated, tasks1, st1) \<Rightarrow> (Some updated, tasks1, st1)
      | (Inl error, tasks1, st1) \<Rightarrow> (None, tasks1, st1))"

text \<open>\<open>a.splice(i, 1)\<close> and \<open>a.splice(i, 0, x)\<close>.\<close>

definition splice_out :: "nat \<Rightarrow> 'a list \<Rightarrow> 'a list" where
  "splice_out i xs = take i xs @ drop (Suc i) xs"

definition splice_in :: "nat \<Rightarrow> 'a \<Rightarrow> 'a list \<Rightarrow> 'a list" where
  "splice_in i x xs = take i xs @ x # drop i xs"

definition deleteTask_try ::
  "task_data list \<Rightarrow> storage_state \<Rightarrow> jsstring \<Rightarrow>
   (tm_error + unit) \<times> task_data list \<times> storage_state" where
  "deleteTask_try tasks st taskId =
     (case findIndex (\<lambda>t. id_task t = taskId) tasks of
        None \<Rightarrow> (Inl NotFound, tasks, st)
      | Some taskIndex \<Rightarrow>
          (let deletedTask = tasks ! taskIndex;
               tasks1 = splice_out taskIndex tasks;
               (deleted, st1) = deleteTask st taskId
           in if \<not> deleted then (Inl DeleteFailed, splice_in taskIndex deletedTask tasks1, st1)
              else (Inr (), tasks1, st1)))"

definition deleteTask_tm ::
  "task_data list \<Rightarrow> storage_state \<Rightarrow> jsstring \<Rightarrow> bool \<times> task_data list \<times> storage_state" where
  "deleteTask_tm tasks st taskId =
     (case deleteTask_try tasks st taskId of
        (Inr u, tasks1, st1) \<Rightarrow> (True, tasks1, st1)
      | (Inl error, tasks1, st1) \<Rightarrow> (False, tasks1, st1))"

section \<open>TaskManager, the variant that reloads (src/unnamed/part_000)\<close>

definition addTask_reload_try ::
  "task_data list \<Rightarrow> storage_state \<Rightarrow> jsval \<Rightarrow> jsval \<Rightarrow> (nat \<Rightarrow> nat) \<Rightarrow> int \<Rightarrow>
   (tm_error + task_data) \<times> task_data list \<times> storage_state" where
  "addTask_reload_try tasks st title auth rnd now =
     (let prepared = prepareTaskData title auth in
      if \<not> isValid (p_validation prepared)
      then (Inl (ValidationFailed (errors (p_validation prepared))), tasks, st)
      else
        (let task = newTask (p_bookTitle prepared) (p_author prepared) rnd now;
             (saved, st1) = saveTask st (toJSON task)
         in if \<not> saved then (Inl SaveFailed, tasks, st1)
            else (let (tasks2, st2) = loadTasks_tm st1
                  in (Inr (toJSON task), tasks2, st2))))"

definition addTask_reload ::
  "task_data list \<Rightarrow> storage_state \<Rightarrow> jsval \<Rightarrow> jsval \<Rightarrow> (nat \<Rightarrow> nat) \<Rightarrow> int \<Rightarrow>
   task_data option \<times> task_data list \<times> storage_state" where
  "addTask_reload tasks st title auth rnd now =
     (case addTask_reload_try tasks st title auth rnd now of
        (Inr created, tasks1, st1) \<Rightarrow> (Some created, tasks1, st1)
      | (Inl error, tasks1, st1) \<Rightarrow> (None, tasks1, st1))"

definition completeTask_reload_try ::
  "task_data list \<Rightarrow> storage_state \<Rightarrow> jsstring \<Rightarrow> (nat \<Rightarrow> nat) \<Rightarrow> int \<Rightarrow>
   (tm_error + task_data) \<times> task_data list \<times> storage_state" where
  "completeTask_reload_try tasks st taskId rnd now =
     (case getTask tasks taskId of
        None \<Rightarrow> (Inl NotFound, tasks, st)
      | Some taskData \<Rightarrow>
          if status taskData = js ''completed'' then (Inl AlreadyCompleted, tasks, st)
          else
            (let task = complete now (fromJSON taskData rnd now);
                 updatedTaskData = toJSON task;
                 (saved, st1) =
                   updateTask st taskId
                     \<lparr>u_status = js ''completed'',
                      u_completedAt = completedAt updatedTaskData\<rparr>
             in if \<not> saved then (Inl UpdateFailed, tasks, st1)
                else (let (tasks2, st2) = loadTasks_tm st1
                      in (Inr updatedTaskData, tasks2, st2))))"

definition completeTask_reload ::
  "task_data list \<Rightarrow> storage_state \<Rightarrow> jsstring \<Rightarrow> (nat \<Rightarrow> nat) \<Rightarrow> int \<Rightarrow>
   task_data option \<times> task_data list \<times> storage_state" where
  "completeTask_reload tasks st taskId rnd now =
     (case completeTask_reload_try tasks st taskId rnd now of
        (Inr updated, tasks1, st1) \<Rightarrow> (Some updated, tasks1, st1)
      | (Inl error, tasks1, st1) \<Rightarrow> (None, tasks1, st1))"

definition deleteTask_reload_try ::
  "task_data list \<Rightarrow> storage_state \<Rightarrow> jsstring \<Rightarrow>
   (tm_error + unit) \<times> task_data list \<times> storage_state" where
  "deleteTask_reload_try tasks st taskId =
     (case getTask tasks taskId of
        None \<Rightarrow> (Inl NotFound, tasks, st)
      | Some found \<Rightarrow>
          (let (deleted, st1) = deleteTask st taskId
           in if \<not> deleted then (Inl DeleteFailed, tasks, st1)
              else (let (tasks2, st2) = loadTasks_tm st1
                    in (Inr (), tasks2, st2))))"

definition deleteTask_reload ::
  "task_data list \<Rightarrow> storage_state \<Rightarrow> jsstring \<Rightarrow> bool \<times> task_data list \<times> storage_state" where
  "deleteTask_reload tasks st taskId =
     (case deleteTask_reload_try tasks st taskId of
        (Inr u, tasks1, st1) \<Rightarrow> (True, tasks1, st1)
      | (Inl error, tasks1, st1) \<Rightarrow> (False, tasks1, st1))"

section \<open>InputValidator (js/input-validator.js)\<close>

text \<open>
  The ten patterns of \<open>xssPatterns\<close>, all with the flags \<open>gi\<close>. They are objects of the
  instance, so the \<open>lastIndex\<close> of each is part of the instance's state.
\<close>

definition tagBlock :: "string \<Rightarrow> re" where
  "tagBlock name =
     seqs [strI (''<'' @ name), WordB, Star (notLit 60),
           Star (seqs [NotAhead (strI (''</'' @ name @ ''>'')), lit 60, Star (notLit 60)]),
           strI (''</'' @ name @ ''>'')]"

definition tagOpen :: "string \<Rightarrow> re" where
  "tagOpen name = seqs [strI (''<'' @ name), WordB, Star (notLit 62), lit 62]"

definition xssPatterns :: "re list" where
  "xssPatterns =
     [tagBlock ''script'', tagBlock ''iframe'', tagBlock ''object'', tagBlock ''embed'',
      tagOpen ''link'', tagOpen ''meta'',
      strI ''javascript:'', strI ''vbscript:'', strI ''data:text/html'',
      seqs [strI ''on'', many1 (Sat isWordChar), Star (Sat isWhiteSpace), lit 61]]"

record InputValidator =
  xssLastIndex :: "nat list"

definition newInputValidator :: InputValidator where
  "newInputValidator = \<lparr>xssLastIndex = map (\<lambda>p. 0) xssPatterns\<rparr>"

text \<open>
  \<open>escapeHtml\<close> assigns the text to \<open>textContent\<close> of a fresh element and reads
  \<open>innerHTML\<close>: the browser serialises the text node, which escapes the ampersand, the
  no-break space and the two angle brackets, and nothing else.
\<close>

definition escapeHtml :: "jsstring \<Rightarrow> jsstring" where
  "escapeHtml text =
     concat (map (\<lambda>c. if c = 38 then js ''&amp;''
                       else if c = 160 then js ''&nbsp;''
                       else if c = 60 then js ''&lt;''
                       else if c = 62 then js ''&gt;''
                       else [c]) text)"

text \<open>The text that \<open>sanitizeInput\<close> returns for a string.\<close>

definition sanitizeInput_text :: "jsstring \<Rightarrow> jsstring" where
  "sanitizeInput_text input =
     (let sanitized = trim input;
          sanitized = escapeHtml sanitized;
          sanitized = replaceAll (Sat isControl) [] sanitized;
          sanitized = replaceAll (many1 (Sat isWhiteSpace)) (js '' '') sanitized
      in foldl (\<lambda>acc pattern. replaceAll pattern [] acc) sanitized xssPatterns)"

text \<open>
  The method on an instance: a global \<open>replace\<close> leaves the \<open>lastIndex\<close> of its pattern
  at 0; a value that is not a string is answered before any pattern is used.
\<close>

fun sanitizeInput :: "InputValidator \<Rightarrow> jsval \<Rightarrow> jsstring \<times> InputValidator" where
  "sanitizeInput iv NotStr = ([], iv)"
| "sanitizeInput iv (Str input) =
     (sanitizeInput_text input, iv\<lparr>xssLastIndex := map (\<lambda>p. 0) xssPatterns\<rparr>)"

text \<open>
  The loop of \<open>containsXSS\<close> over the patterns and their \<open>lastIndex\<close> values: it returns
  at the first pattern whose \<open>test\<close> succeeds.
\<close>

fun containsXSS_loop :: "re list \<Rightarrow> nat list \<Rightarrow> jsstring \<Rightarrow> bool \<times> nat list" where
  "containsXSS_loop (pattern # ps) (lastIndex # ls) input =
     (case test_g pattern input lastIndex of
        (True, lastIndex1) \<Rightarrow> (True, lastIndex1 # ls)
      | (False, lastIndex1) \<Rightarrow>
          (case containsXSS_loop ps ls input of
             (found, ls1) \<Rightarrow> (found, lastIndex1 # ls1)))"
| "containsXSS_loop ps ls input = (False, ls)"

definition containsXSS :: "InputValidator \<Rightarrow> jsstring \<Rightarrow> bool \<times> InputValidator" where
  "containsXSS iv input =
     (case containsXSS_loop xssPatterns (xssLastIndex iv) input of
        (found, ls) \<Rightarrow> (found, iv\<lparr>xssLastIndex := ls\<rparr>))"

text \<open>
  The thirteen patterns of \<open>containsSuspiciousContent\<close>. They are literals of the method's
  body: every call creates them anew, with \<open>lastIndex\<close> 0.
\<close>

definition isLineTerminator :: "int \<Rightarrow> bool" where
  "isLineTerminator c = (c = 10 \<or> c = 13 \<or> c = 8232 \<or> c = 8233)"

definition dot :: re where
  "dot = Sat (\<lambda>c. \<not> isLineTerminator c)"

definition isAsciiLetter :: "int \<Rightarrow> bool" where
  "isAsciiLetter c = ((65 \<le> c \<and> c \<le> 90) \<or> (97 \<le> c \<and> c \<le> 122))"

definition callOf :: "string \<Rightarrow> int \<Rightarrow> re" where
  "callOf name c = seqs [WordB, strI name, Star (Sat isWhiteSpace), lit c]"

definition suspiciousPatterns :: "re list" where
  "suspiciousPatterns =
     [callOf ''eval'' 40, callOf ''Function'' 40, callOf ''setTimeout'' 40,
      callOf ''setInterval'' 40, callOf ''document'' 46, callOf ''window'' 46,
      callOf ''alert'' 40, callOf ''confirm'' 40, callOf ''prompt'' 40,
      seqs [lit 60, Star (Sat isWhiteSpace), Opt (lit 47), Star (Sat isWhiteSpace),
            Sat isAsciiLetter],
      seqs [lit 123, lit 123, Star dot, lit 125, lit 125],
      seqs [lit 36, lit 123, Star dot, lit 125],
      seqs [lit 60, lit 37, Star dot, lit 37, lit 62]]"

definition containsSuspiciousContent :: "jsstring \<Rightarrow> bool" where
  "containsSuspiciousContent input =
     list_ex (\<lambda>pattern. fst (test_g pattern input 0)) suspiciousPatterns"

definition isEmpty :: "jsstring \<Rightarrow> bool" where
  "isEmpty v = (v = [] \<or> length (trim v) = 0)"

text \<open>
  The two rules of the constructor. Both have \<open>sanitize: true\<close> and \<open>pattern: null\<close>, so
  \<open>validateField\<close> always sanitizes and never tests a pattern of the rule.
\<close>

record rule =
  required :: bool
  minLength :: nat
  maxLength :: nat

definition validationRules :: "string \<Rightarrow> rule option" where
  "validationRules fieldName =
     (if fieldName = ''bookTitle'' then Some \<lparr>required = True, minLength = 1, maxLength = 100\<rparr>
      else if fieldName = ''author'' then Some \<lparr>required = False, minLength = 0, maxLength = 50\<rparr>
      else None)"

definition isJapanese :: "int \<Rightarrow> bool" where
  "isJapanese c =
     ((12352 \<le> c \<and> c \<le> 12447) \<or> (12448 \<le> c \<and> c \<le> 12543) \<or>
      (19968 \<le> c \<and> c \<le> 40879) \<or> (13312 \<le> c \<and> c \<le> 19903))"

definition isAlnum :: "int \<Rightarrow> bool" where
  "isAlnum c = (isAsciiLetter c \<or> (48 \<le> c \<and> c \<le> 57))"

text \<open>
  The character classes of \<open>allowedPatterns\<close>; a pattern \<open>^[...]+$\<close> accepts a text when it
  is not empty and each of its characters is in the class.
\<close>

definition allowedPatterns :: "string \<Rightarrow> (int \<Rightarrow> bool) option" where
  "allowedPatterns fieldName =
     (if fieldName = ''bookTitle'' then
        Some (\<lambda>c. isJapanese c \<or> isAlnum c \<or> isWhiteSpace c \<or>
                   c \<in> set [45, 46, 44, 33, 63, 58, 59, 40, 41, 91, 93, 123, 125,
                              12300, 12301, 12302, 12303, 12296, 12297, 12298, 12299,
                              12304, 12305, 12308, 12309, 12539, 65374, 12540, 65281,
                              65311, 65288, 65289])
      else if fieldName = ''author'' then
        Some (\<lambda>c. isJapanese c \<or> isAlnum c \<or> isWhiteSpace c \<or> c \<in> set [45, 46, 44])
      else None)"

datatype message_kind =
  MsgRequired | MsgMinLength nat | MsgMaxLength nat | MsgInvalidCharacters | MsgXss
  | MsgSuspicious

record field_result =
  f_isValid :: bool
  f_sanitizedValue :: jsval
  f_errors :: "(string \<times> message_kind) list"

definition validateField ::
  "InputValidator \<Rightarrow> string \<Rightarrow> jsval \<Rightarrow> field_result \<times> InputValidator" where
  "validateField iv fieldName v =
     (case validationRules fieldName of
        None \<Rightarrow> (\<lparr>f_isValid = True, f_sanitizedValue = v, f_errors = []\<rparr>, iv)
      | Some rule \<Rightarrow>
          (let (sanitizedValue, iv1) = sanitizeInput iv v;
               errors1 = (if required rule \<and> isEmpty sanitizedValue
                          then [(fieldName, MsgRequired)] else [])
           in if isEmpty sanitizedValue
              then (\<lparr>f_isValid = (length errors1 = 0), f_sanitizedValue = Str sanitizedValue,
                     f_errors = errors1\<rparr>, iv1)
              else
                (let errors2 = errors1 @
                       (if length sanitizedValue < minLength rule
                        then [(fieldName, MsgMinLength (minLength rule))] else []) @
                       (if length sanitizedValue > maxLength rule
                        then [(fieldName, MsgMaxLength (maxLength rule))] else []) @
                       (case allowedPatterns fieldName of
                          Some allowed \<Rightarrow>
                            if \<not> list_all allowed sanitizedValue
                            then [(fieldName, MsgInvalidCharacters)] else []
                        | None \<Rightarrow> []);
                     (xss, iv2) = containsXSS iv1 sanitizedValue;
                     errors3 = errors2 @ (if xss then [(fieldName, MsgXss)] else []) @
                       (if containsSuspiciousContent sanitizedValue
                        then [(fieldName, MsgSuspicious)] else [])
                 in (\<lparr>f_isValid = (length errors3 = 0), f_sanitizedValue = Str sanitizedValue,
                      f_errors = errors3\<rparr>, iv2))))"

section \<open>The sanitization pipeline as the specification words it\<close>

text \<open>
  The stages that the specification names, each as a function of its own, and the
  pipeline in the order in which the specification lists them: trim, collapse white
  space, strip control characters, escape the five HTML characters, remove the patterns.
\<close>

definition collapseWhitespace :: "jsstring \<Rightarrow> jsstring" where
  "collapseWhitespace s = replaceAll (many1 (Sat isWhiteSpace)) (js '' '') s"

definition stripControl :: "jsstring \<Rightarrow> jsstring" where
  "stripControl s = replaceAll (Sat isControl) [] s"

definition removePatterns :: "jsstring \<Rightarrow> jsstring" where
  "removePatterns s = foldl (\<lambda>acc pattern. replaceAll pattern [] acc) s xssPatterns"

definition escapeFive :: "jsstring \<Rightarrow> jsstring" where
  "escapeFive text =
     concat (map (\<lambda>c. if c = 38 then js ''&amp;''
                       else if c = 60 then js ''&lt;''
                       else if c = 62 then js ''&gt;''
                       else if c = 34 then js ''&quot;''
                       else if c = 39 then js ''&#x27;''
                       else [c]) text)"

definition spec_pipeline :: "jsstring \<Rightarrow> jsstring" where
  "spec_pipeline input =
     removePatterns (escapeFive (stripControl (collapseWhitespace (trim input))))"

section \<open>Scenarios\<close>

text \<open>
  Concrete browsers, records and runs on which the theorems below are instantiated.
  \<open>quota_reached\<close> is a Storage object that still takes the small write of the
  availability probe and refuses every other write; \<open>unavailable\<close> refuses every write.
\<close>

definition rnd0 :: "nat \<Rightarrow> nat" where
  "rnd0 k = 0"

definition empty_store :: webstore where
  "empty_store = \<lparr>items = (\<lambda>k. None), accepts = (\<lambda>k v. True)\<rparr>"

definition holding :: "item \<Rightarrow> webstore \<Rightarrow> webstore" where
  "holding v b = b\<lparr>items := (items b)(storageKey := Some v)\<rparr>"

definition quota_reached :: "webstore \<Rightarrow> webstore" where
  "quota_reached b = b\<lparr>accepts := (\<lambda>k v. k = storage_test)\<rparr>"

definition unavailable :: "webstore \<Rightarrow> webstore" where
  "unavailable b = b\<lparr>accepts := (\<lambda>k v. False)\<rparr>"

definition available :: "webstore \<Rightarrow> webstore" where
  "available b = b\<lparr>accepts := (\<lambda>k v. True)\<rparr>"

definition browser :: "webstore \<Rightarrow> webstore \<Rightarrow> storage_state" where
  "browser l s = \<lparr>fallbackToSession = False, localStorage = l, sessionStorage = s\<rparr>"

definition primary_recovers :: "storage_state \<Rightarrow> storage_state" where
  "primary_recovers st = st\<lparr>localStorage := available (localStorage st)\<rparr>"

definition task_a :: task_data where
  "task_a = \<lparr>id_task = js ''a'', bookTitle = js ''Kokoro'', author = js ''Soseki'',
             status = js ''active'', createdAt = Date 1, completedAt = None\<rparr>"

definition stored_a :: stored_task where
  "stored_a = \<lparr>id_task = js ''a'', bookTitle = js ''Kokoro'', author = js ''Soseki'',
               status = js ''active'', createdAt = Iso 1, completedAt = None\<rparr>"

definition task_done :: task_data where
  "task_done = \<lparr>id_task = js ''a'', bookTitle = js ''Kokoro'', author = js ''Soseki'',
                status = js ''completed'', createdAt = Date 1, completedAt = Some (Date 5)\<rparr>"

definition run_add_spaced :: "task_data option \<times> task_data list \<times> storage_state" where
  "run_add_spaced =
     addTask [] (browser empty_store empty_store) (Str (js ''a  b'')) (Str []) rnd0 0"

definition tab_text :: jsstring where
  "tab_text = js ''a'' @ [9] @ js ''b''"

definition fallback_browser :: storage_state where
  "fallback_browser =
     browser (unavailable (holding (Collection [stored_a]) empty_store)) empty_store"

definition stocked_browser :: storage_state where
  "stocked_browser = browser (holding (Collection [stored_a]) empty_store) empty_store"

definition quota_browser :: storage_state where
  "quota_browser =
     browser (quota_reached (holding (Collection [stored_a]) empty_store)) empty_store"

section \<open>Auxiliary facts\<close>

lemma newDate_id: "newDate d = d"
  by (cases d) simp

lemma toJSON_Task: "toJSON (Task d) = d"
  by simp

lemma findIndex_Some: "findIndex P xs = Some i \<Longrightarrow> i < length xs \<and> P (xs ! i)"
proof (induction xs arbitrary: i)
  case Nil
  then show ?case by simp
next
  case (Cons x xs)
  show ?case
  proof (cases "P x")
    case True
    with Cons.prems show ?thesis by simp
  next
    case False
    with Cons.prems obtain j where j: "findIndex P xs = Some j" and i: "i = Suc j"
      by (auto split: if_splits)
    from Cons.IH[OF j] i show ?thesis by simp
  qed
qed

lemma splice_roundtrip: "i < length xs \<Longrightarrow> splice_in i (xs ! i) (splice_out i xs) = xs"
  by (simp add: splice_in_def splice_out_def min_def id_take_nth_drop[symmetric])

lemma completeTask_rollback:
  assumes idx: "findIndex (\<lambda>t. id_task t = taskId) tasks = Some i"
    and active: "status (tasks ! i) \<noteq> js ''completed''"
    and failed: "\<not> fst (updateTask st taskId \<lparr>u_status = js ''completed'', u_completedAt = Some (Date now)\<rparr>)"
  shows "fst (completeTask tasks st taskId rnd now) = None \<and>
         fst (snd (completeTask tasks st taskId rnd now)) = tasks"
proof -
  obtain saved st1 where
    upd: "updateTask st taskId \<lparr>u_status = js ''completed'', u_completedAt = Some (Date now)\<rparr> = (saved, st1)"
    by (cases "updateTask st taskId \<lparr>u_status = js ''completed'', u_completedAt = Some (Date now)\<rparr>")
  with failed have "\<not> saved" by simp
  with idx active upd show ?thesis
    by (simp add: completeTask_def completeTask_try_def Let_def fromJSON_def newTask_def)
qed

lemma deleteTask_rollback:
  assumes idx: "findIndex (\<lambda>t. id_task t = taskId) tasks = Some i"
    and failed: "\<not> fst (deleteTask st taskId)"
  shows "fst (deleteTask_tm tasks st taskId) = False \<and>
         fst (snd (deleteTask_tm tasks st taskId)) = tasks"
proof -
  obtain deleted st1 where del: "deleteTask st taskId = (deleted, st1)"
    by (cases "deleteTask st taskId")
  with failed have "\<not> deleted" by simp
  with idx del findIndex_Some[OF idx] show ?thesis
    by (simp add: deleteTask_tm_def deleteTask_try_def Let_def splice_roundtrip)
qed

lemma keys_differ: "storageKey \<noteq> storage_test"
  by (simp add: storageKey_def storage_test_def)

lemma getStorage_local:
  assumes "accepts (localStorage st) storage_test Unparsable"
  shows "getStorage st =
           (LocalStorage,
            st\<lparr>localStorage :=
                 (localStorage st)\<lparr>items := (items (localStorage st))(storage_test := None)\<rparr>\<rparr>)"
  using assms
  by (simp add: getStorage_def isStorageAvailable_def setItem_def removeItem_def)

lemma getStorage_session:
  assumes "\<not> accepts (localStorage st) storage_test Unparsable"
  shows "getStorage st = (SessionStorage, st\<lparr>fallbackToSession := True\<rparr>)"
  using assms
  by (simp add: getStorage_def isStorageAvailable_def setItem_def)

lemma loadTasks_eq:
  "loadTasks st =
     ((case getItem (storage_of (fst (getStorage st)) (snd (getStorage st))) storageKey of
         Some (Collection ts) \<Rightarrow> map revive ts
       | _ \<Rightarrow> []),
      snd (getStorage st))"
proof -
  obtain storage st1 where gs: "getStorage st = (storage, st1)"
    by (cases "getStorage st")
  show ?thesis
  proof (cases "getItem (storage_of storage st1) storageKey")
    case None
    with gs show ?thesis
      by (simp add: loadTasks_def loadTasks_try_def)
  next
    case (Some it)
    with gs show ?thesis
      by (cases it) (simp_all add: loadTasks_def loadTasks_try_def)
  qed
qed

lemma getStorage_again:
  "fst (getStorage (snd (getStorage st))) = fst (getStorage st) \<and>
   getItem (storage_of (fst (getStorage st)) (snd (getStorage (snd (getStorage st))))) storageKey =
   getItem (storage_of (fst (getStorage st)) (snd (getStorage st))) storageKey"
proof (cases "accepts (localStorage st) storage_test Unparsable")
  case True
  let ?st1 = "st\<lparr>localStorage :=
                 (localStorage st)\<lparr>items := (items (localStorage st))(storage_test := None)\<rparr>\<rparr>"
  have "accepts (localStorage ?st1) storage_test Unparsable"
    using True by simp
  from getStorage_local[OF this] getStorage_local[OF True] show ?thesis
    by (simp add: getItem_def)
next
  case False
  let ?st1 = "st\<lparr>fallbackToSession := True\<rparr>"
  have "\<not> accepts (localStorage ?st1) storage_test Unparsable"
    using False by simp
  from getStorage_session[OF this] getStorage_session[OF False] show ?thesis
    by (simp add: getItem_def)
qed

lemma loadTasks_again: "fst (loadTasks (snd (loadTasks st))) = fst (loadTasks st)"
  using getStorage_again[of st]
  by (simp add: loadTasks_eq)

lemma addTask_reload_synced:
  assumes "addTask_reload tasks st title auth rnd now = (Some r, tasks', st')"
  shows "tasks' = fst (loadTasks st')"
proof -
  let ?task = "toJSON (newTask (p_bookTitle (prepareTaskData title auth))
                 (p_author (prepareTaskData title auth)) rnd now)"
  obtain saved st1 where sv: "saveTask st ?task = (saved, st1)"
    by (cases "saveTask st ?task")
  obtain tasks2 st2 where ld: "loadTasks st1 = (tasks2, st2)"
    by (cases "loadTasks st1")
  from assms sv ld have "tasks' = tasks2" and "st' = st2" and "saved"
    by (auto simp add: addTask_reload_def addTask_reload_try_def loadTasks_tm_def Let_def
        split: if_splits)
  moreover from loadTasks_again[of st1] ld have "fst (loadTasks st2) = tasks2"
    by simp
  ultimately show ?thesis by simp
qed

lemma completeTask_reload_synced:
  assumes "completeTask_reload tasks st taskId rnd now = (Some r, tasks', st')"
  shows "tasks' = fst (loadTasks st')"
proof -
  from assms obtain taskData where found: "getTask tasks taskId = Some taskData"
    by (cases "getTask tasks taskId")
      (auto simp add: completeTask_reload_def completeTask_reload_try_def)
  let ?u = "\<lparr>u_status = js ''completed'',
            u_completedAt = completedAt (toJSON (complete now (fromJSON taskData rnd now)))\<rparr>"
  obtain saved st1 where sv: "updateTask st taskId ?u = (saved, st1)"
    by (cases "updateTask st taskId ?u")
  obtain tasks2 st2 where ld: "loadTasks st1 = (tasks2, st2)"
    by (cases "loadTasks st1")
  from assms found sv ld have "tasks' = tasks2" and "st' = st2"
    by (auto simp add: completeTask_reload_def completeTask_reload_try_def loadTasks_tm_def
        Let_def split: if_splits)
  moreover from loadTasks_again[of st1] ld have "fst (loadTasks st2) = tasks2"
    by simp
  ultimately show ?thesis by simp
qed

lemma deleteTask_reload_synced:
  assumes "deleteTask_reload tasks st taskId = (True, tasks', st')"
  shows "tasks' = fst (loadTasks st')"
proof -
  from assms obtain found where found: "getTask tasks taskId = Some found"
    by (cases "getTask tasks taskId")
      (auto simp add: deleteTask_reload_def deleteTask_reload_try_def)
  obtain deleted st1 where dl: "deleteTask st taskId = (deleted, st1)"
    by (cases "deleteTask st taskId")
  obtain tasks2 st2 where ld: "loadTasks st1 = (tasks2, st2)"
    by (cases "loadTasks st1")
  from assms found dl ld have "tasks' = tasks2" and "st' = st2"
    by (auto simp add: deleteTask_reload_def deleteTask_reload_try_def loadTasks_tm_def
        Let_def split: if_splits)
  moreover from loadTasks_again[of st1] ld have "fst (loadTasks st2) = tasks2"
    by simp
  ultimately show ?thesis by simp
qed

lemma addTask_patch:
  assumes "addTask tasks st title auth rnd now = (Some r, tasks', st')"
  shows "tasks' = tasks @ [r]"
proof -
  let ?task = "toJSON (newTask (p_bookTitle (prepareTaskData title auth))
                 (p_author (prepareTaskData title auth)) rnd now)"
  obtain saved st1 where sv: "saveTask st ?task = (saved, st1)"
    by (cases "saveTask st ?task")
  from assms sv show ?thesis
    by (auto simp add: addTask_def addTask_try_def Let_def split: if_splits)
qed

lemma completeTask_patch:
  assumes "completeTask tasks st taskId rnd now = (Some r, tasks', st')"
  shows "\<exists>i. findIndex (\<lambda>t. id_task t = taskId) tasks = Some i \<and> tasks' = tasks[i := r]"
proof -
  from assms obtain i where idx: "findIndex (\<lambda>t. id_task t = taskId) tasks = Some i"
    by (cases "findIndex (\<lambda>t. id_task t = taskId) tasks")
      (auto simp add: completeTask_def completeTask_try_def)
  let ?u = "\<lparr>u_status = js ''completed'',
            u_completedAt = completedAt (toJSON (complete now (fromJSON (tasks ! i) rnd now)))\<rparr>"
  obtain saved st1 where sv: "updateTask st taskId ?u = (saved, st1)"
    by (cases "updateTask st taskId ?u")
  from assms idx sv have "tasks' = tasks[i := r]"
    by (auto simp add: completeTask_def completeTask_try_def Let_def split: if_splits)
  with idx show ?thesis by blast
qed

lemma deleteTask_patch:
  assumes "deleteTask_tm tasks st taskId = (True, tasks', st')"
  shows "\<exists>i. findIndex (\<lambda>t. id_task t = taskId) tasks = Some i \<and> tasks' = splice_out i tasks"
proof -
  from assms obtain i where idx: "findIndex (\<lambda>t. id_task t = taskId) tasks = Some i"
    by (cases "findIndex (\<lambda>t. id_task t = taskId) tasks")
      (auto simp add: deleteTask_tm_def deleteTask_try_def)
  obtain deleted st1 where dl: "deleteTask st taskId = (deleted, st1)"
    by (cases "deleteTask st taskId")
  from assms idx dl have "tasks' = splice_out i tasks"
    by (auto simp add: deleteTask_tm_def deleteTask_try_def Let_def split: if_splits)
  with idx show ?thesis by blast
qed

lemma complete_sets:
  "toJSON (complete now t) = (toJSON t)\<lparr>status := js ''completed'', completedAt := Some (Date now)\<rparr>"
  by (cases t) simp

lemma completeTask_already:
  assumes idx: "findIndex (\<lambda>t. id_task t = taskId) tasks = Some i"
    and compl: "status (tasks ! i) = js ''completed''"
  shows "completeTask_try tasks st taskId rnd now = (Inl AlreadyCompleted, tasks, st)"
  using idx compl
  by (simp add: completeTask_try_def)

lemma findIndex_update:
  assumes "findIndex (\<lambda>t. id_task t = k) xs = Some i" and "id_task y = k"
  shows "findIndex (\<lambda>t. id_task t = k) (xs[i := y]) = Some i"
  using assms
proof (induction xs arbitrary: i)
  case Nil
  then show ?case by simp
next
  case (Cons x xs)
  show ?case
  proof (cases "id_task x = k")
    case True
    with Cons.prems show ?thesis by simp
  next
    case False
    with Cons.prems obtain j where j: "findIndex (\<lambda>t. id_task t = k) xs = Some j" and i: "i = Suc j"
      by (auto split: if_splits)
    from Cons.IH[OF j Cons.prems(2)] i False show ?thesis by simp
  qed
qed

lemma completeTask_success:
  assumes idx: "findIndex (\<lambda>t. id_task t = taskId) tasks = Some i"
    and active: "status (tasks ! i) \<noteq> js ''completed''"
    and saved: "fst (updateTask st taskId \<lparr>u_status = js ''completed'', u_completedAt = Some (Date now)\<rparr>)"
  shows "\<exists>r. fst (completeTask tasks st taskId rnd now) = Some r \<and>
             status r = js ''completed'' \<and> completedAt r = Some (Date now) \<and>
             fst (snd (completeTask tasks st taskId rnd now)) = tasks[i := r] \<and>
             (\<forall>rnd' now'.
                completeTask_try (fst (snd (completeTask tasks st taskId rnd now)))
                  (snd (snd (completeTask tasks st taskId rnd now))) taskId rnd' now' =
                (Inl AlreadyCompleted, fst (snd (completeTask tasks st taskId rnd now)),
                 snd (snd (completeTask tasks st taskId rnd now))))"
proof -
  let ?u = "\<lparr>u_status = js ''completed'', u_completedAt = Some (Date now)\<rparr>"
  let ?r = "toJSON (complete now (fromJSON (tasks ! i) rnd now))"
  obtain sv st1 where upd: "updateTask st taskId ?u = (sv, st1)"
    by (cases "updateTask st taskId ?u")
  with saved have sv: "sv" by simp
  from findIndex_Some[OF idx] have il: "i < length tasks" and idi: "id_task (tasks ! i) = taskId"
    by simp_all
  have r: "?r = (tasks ! i)\<lparr>status := js ''completed'', completedAt := Some (Date now)\<rparr>"
    by (simp add: fromJSON_def newTask_def newDate_id)
  have res: "completeTask tasks st taskId rnd now = (Some ?r, tasks[i := ?r], st1)"
    using idx active upd sv
    by (simp add: completeTask_def completeTask_try_def Let_def fromJSON_def newTask_def)
  have idr: "id_task ?r = taskId"
    using idi by (simp add: r)
  have again: "completeTask_try (tasks[i := ?r]) st1 taskId rnd' now' =
                 (Inl AlreadyCompleted, tasks[i := ?r], st1)" for rnd' now'
    by (rule completeTask_already[OF findIndex_update[OF idx idr]]) (simp add: il r)
  show ?thesis
    using res again by (simp add: r)
qed

lemma getStorage_flag: "fallbackToSession st \<Longrightarrow> fallbackToSession (snd (getStorage st))"
  by (cases "accepts (localStorage st) storage_test Unparsable")
    (simp_all add: getStorage_local getStorage_session)

lemma getStorage_choice:
  "fst (getStorage st) =
     (if accepts (localStorage st) storage_test Unparsable then LocalStorage else SessionStorage)"
  by (simp add: getStorage_local getStorage_session)

lemma storage_put_flag: "fallbackToSession (storage_put r b st) = fallbackToSession st"
  by (cases r) simp_all

lemma isStorageAvailable_flag:
  "fallbackToSession (snd (isStorageAvailable st)) = fallbackToSession st"
  by (simp add: isStorageAvailable_def split: sum.splits)

lemma loadTasks_flag: "fallbackToSession st \<Longrightarrow> fallbackToSession (snd (loadTasks st))"
  by (simp add: loadTasks_eq getStorage_flag)

lemma saveTasks_flag: "fallbackToSession st \<Longrightarrow> fallbackToSession (snd (saveTasks st ts))"
proof -
  assume f: "fallbackToSession st"
  obtain storage st1 where gs: "getStorage st = (storage, st1)"
    by (cases "getStorage st")
  with getStorage_flag[OF f] have "fallbackToSession st1" by simp
  with gs show ?thesis
    by (simp add: saveTasks_def storage_put_flag split: sum.splits)
qed

lemma saveTask_flag: "fallbackToSession st \<Longrightarrow> fallbackToSession (snd (saveTask st t))"
proof -
  assume f: "fallbackToSession st"
  obtain tasks st1 where ld: "loadTasks st = (tasks, st1)"
    by (cases "loadTasks st")
  with loadTasks_flag[OF f] have "fallbackToSession st1" by simp
  with f ld show ?thesis
    by (simp add: saveTask_def saveTasks_flag Let_def split: option.splits)
qed

lemma updateTask_flag: "fallbackToSession st \<Longrightarrow> fallbackToSession (snd (updateTask st k u))"
proof -
  assume f: "fallbackToSession st"
  obtain tasks st1 where ld: "loadTasks st = (tasks, st1)"
    by (cases "loadTasks st")
  with loadTasks_flag[OF f] have "fallbackToSession st1" by simp
  with ld show ?thesis
    by (simp add: updateTask_def saveTasks_flag split: option.splits)
qed

lemma deleteTask_flag: "fallbackToSession st \<Longrightarrow> fallbackToSession (snd (deleteTask st k))"
proof -
  assume f: "fallbackToSession st"
  obtain tasks st1 where ld: "loadTasks st = (tasks, st1)"
    by (cases "loadTasks st")
  with loadTasks_flag[OF f] have "fallbackToSession st1" by simp
  with ld show ?thesis
    by (simp add: deleteTask_def saveTasks_flag Let_def)
qed

lemma clearAllTasks_flag: "fallbackToSession st \<Longrightarrow> fallbackToSession (snd (clearAllTasks st))"
proof -
  assume f: "fallbackToSession st"
  obtain storage st1 where gs: "getStorage st = (storage, st1)"
    by (cases "getStorage st")
  with getStorage_flag[OF f] have "fallbackToSession st1" by simp
  with gs show ?thesis
    by (simp add: clearAllTasks_def storage_put_flag)
qed

lemma getStorageInfo_flag:
  assumes f: "fallbackToSession st"
  shows "fallbackToSession (snd (getStorageInfo st)) \<and>
         storageType (fst (getStorageInfo st)) = SessionStorage"
proof -
  obtain storage st1 where gs: "getStorage st = (storage, st1)"
    by (cases "getStorage st")
  obtain tasks st2 where ld: "loadTasks st1 = (tasks, st2)"
    by (cases "loadTasks st1")
  obtain av st3 where ia: "isStorageAvailable st2 = (av, st3)"
    by (cases "isStorageAvailable st2")
  from getStorage_flag[OF f] gs have f1: "fallbackToSession st1" by simp
  from loadTasks_flag[OF f1] ld have f2: "fallbackToSession st2" by simp
  from isStorageAvailable_flag[of st2] ia f2 have f3: "fallbackToSession st3" by simp
  from gs ld ia f2 f3 show ?thesis
    by (simp add: getStorageInfo_def)
qed

section \<open>Task entity: round trip and completion\<close>

text \<open>
  C8. For every Task entity \<open>t\<close>, \<open>Task.fromJSON(t.toJSON())\<close> is an entity with the same
  id, bookTitle, author, status, createdAt and completedAt as \<open>t\<close>, whatever the
  constructor inside \<open>fromJSON\<close> draws for its own id and creation time.
\<close>

theorem C8_roundtrip:
  "fromJSON (toJSON t) rnd now = t \<and>
   id_task (toJSON (fromJSON (toJSON t) rnd now)) = id_task (toJSON t) \<and>
   bookTitle (toJSON (fromJSON (toJSON t) rnd now)) = bookTitle (toJSON t) \<and>
   author (toJSON (fromJSON (toJSON t) rnd now)) = author (toJSON t) \<and>
   status (toJSON (fromJSON (toJSON t) rnd now)) = status (toJSON t) \<and>
   createdAt (toJSON (fromJSON (toJSON t) rnd now)) = createdAt (toJSON t) \<and>
   completedAt (toJSON (fromJSON (toJSON t) rnd now)) = completedAt (toJSON t)"
proof -
  have "fromJSON (toJSON t) rnd now = t"
  proof (cases t)
    case (Task d)
    show ?thesis
      unfolding Task toJSON_Task
      by (cases "completedAt d") (simp_all add: fromJSON_def newTask_def newDate_id)
  qed
  then show ?thesis by simp
qed

theorem C8_roundtrip_witness:
  "fromJSON (toJSON (Task task_done)) rnd0 9 = Task task_done \<and>
   completedAt (toJSON (fromJSON (toJSON (Task task_done)) rnd0 9)) = Some (Date 5)"
proof -
  have "completedAt (toJSON (Task task_done)) = Some (Date 5)"
    by (simp add: task_done_def)
  with C8_roundtrip[of "Task task_done" rnd0 9] show ?thesis
    by simp
qed

text \<open>
  C4, as amended. The entity's \<open>complete()\<close> has no failure: on every task, also on a
  completed one, it sets status to completed and completedAt to the current time. The
  \<open>ALREADY_COMPLETED\<close> failure is raised by the registry: \<open>completeTask\<close> on a task whose
  record in the mirror is completed throws it, returns null, and changes neither the
  mirror nor the adapter. On an active task whose update the adapter accepts,
  \<open>completeTask\<close> returns the record with status completed and completedAt the current
  time and puts it into the mirror, and every later \<open>completeTask\<close> on that id fails
  with \<open>ALREADY_COMPLETED\<close> and leaves mirror and adapter as they are.
\<close>

theorem C4_completion:
  "toJSON (complete now t) =
     (toJSON t)\<lparr>status := js ''completed'', completedAt := Some (Date now)\<rparr> \<and>
   (findIndex (\<lambda>t. id_task t = taskId) tasks = Some i \<and>
    status (tasks ! i) = js ''completed'' \<longrightarrow>
      completeTask_try tasks st taskId rnd now = (Inl AlreadyCompleted, tasks, st) \<and>
      completeTask tasks st taskId rnd now = (None, tasks, st)) \<and>
   (findIndex (\<lambda>t. id_task t = taskId) tasks = Some i \<and>
    status (tasks ! i) \<noteq> js ''completed'' \<and>
    fst (updateTask st taskId
           \<lparr>u_status = js ''completed'', u_completedAt = Some (Date now)\<rparr>) \<longrightarrow>
      (\<exists>r. fst (completeTask tasks st taskId rnd now) = Some r \<and>
           status r = js ''completed'' \<and> completedAt r = Some (Date now) \<and>
           fst (snd (completeTask tasks st taskId rnd now)) = tasks[i := r] \<and>
           (\<forall>rnd' now'.
              completeTask_try (fst (snd (completeTask tasks st taskId rnd now)))
                (snd (snd (completeTask tasks st taskId rnd now))) taskId rnd' now' =
              (Inl AlreadyCompleted, fst (snd (completeTask tasks st taskId rnd now)),
               snd (snd (completeTask tasks st taskId rnd now))))))"
proof (intro conjI impI)
  show "toJSON (complete now t) =
          (toJSON t)\<lparr>status := js ''completed'', completedAt := Some (Date now)\<rparr>"
    by (rule complete_sets)
next
  assume h: "findIndex (\<lambda>t. id_task t = taskId) tasks = Some i \<and>
             status (tasks ! i) = js ''completed''"
  then show "completeTask_try tasks st taskId rnd now = (Inl AlreadyCompleted, tasks, st)"
    by (simp add: completeTask_already)
  from h show "completeTask tasks st taskId rnd now = (None, tasks, st)"
    by (simp add: completeTask_def completeTask_already)
next
  assume h: "findIndex (\<lambda>t. id_task t = taskId) tasks = Some i \<and>
             status (tasks ! i) \<noteq> js ''completed'' \<and>
             fst (updateTask st taskId
                    \<lparr>u_status = js ''completed'', u_completedAt = Some (Date now)\<rparr>)"
  then show "\<exists>r. fst (completeTask tasks st taskId rnd now) = Some r \<and>
           status r = js ''completed'' \<and> completedAt r = Some (Date now) \<and>
           fst (snd (completeTask tasks st taskId rnd now)) = tasks[i := r] \<and>
           (\<forall>rnd' now'.
              completeTask_try (fst (snd (completeTask tasks st taskId rnd now)))
                (snd (snd (completeTask tasks st taskId rnd now))) taskId rnd' now' =
              (Inl AlreadyCompleted, fst (snd (completeTask tasks st taskId rnd now)),
               snd (snd (completeTask tasks st taskId rnd now))))"
    by (intro completeTask_success) simp_all
qed

theorem C4_completion_witness:
  "(findIndex (\<lambda>t. id_task t = js ''a'') [task_done] = Some 0 \<and>
    status ([task_done] ! 0) = js ''completed'') \<and>
   fst (completeTask [task_done] stocked_browser (js ''a'') rnd0 9) = None \<and>
   fst (snd (completeTask [task_done] stocked_browser (js ''a'') rnd0 9)) = [task_done] \<and>
   (findIndex (\<lambda>t. id_task t = js ''a'') [task_a] = Some 0 \<and>
    status ([task_a] ! 0) \<noteq> js ''completed'' \<and>
    fst (updateTask stocked_browser (js ''a'')
           \<lparr>u_status = js ''completed'', u_completedAt = Some (Date 7)\<rparr>)) \<and>
   (\<exists>r. fst (completeTask [task_a] stocked_browser (js ''a'') rnd0 7) = Some r \<and>
        status r = js ''completed'' \<and> completedAt r = Some (Date 7))"
proof -
  have h1: "findIndex (\<lambda>t. id_task t = js ''a'') [task_done] = Some 0 \<and>
            status ([task_done] ! 0) = js ''completed''"
    by code_simp
  have h2: "findIndex (\<lambda>t. id_task t = js ''a'') [task_a] = Some 0 \<and>
            status ([task_a] ! 0) \<noteq> js ''completed'' \<and>
            fst (updateTask stocked_browser (js ''a'')
                   \<lparr>u_status = js ''completed'', u_completedAt = Some (Date 7)\<rparr>)"
    by code_simp
  note thm1 = C4_completion[of 9 "Task task_done" "js ''a''" "[task_done]" 0 stocked_browser rnd0]
  note thm2 = C4_completion[of 7 "Task task_a" "js ''a''" "[task_a]" 0 stocked_browser rnd0]
  from thm1 h1 have c1: "completeTask [task_done] stocked_browser (js ''a'') rnd0 9 =
                          (None, [task_done], stocked_browser)"
    by blast
  from thm2 h2 have c2: "\<exists>r. fst (completeTask [task_a] stocked_browser (js ''a'') rnd0 7) = Some r \<and>
        status r = js ''completed'' \<and> completedAt r = Some (Date 7)"
    by blast
  from h1 h2 c1 c2 show ?thesis
    by simp
qed

theorem C4_counterexample:
  "isCompleted (Task task_done) \<and>
   completedAt (toJSON (Task task_done)) = Some (Date 5) \<and>
   completedAt (toJSON (complete 9 (Task task_done))) = Some (Date 9)"
  by code_simp

section \<open>Task registry: the mirror after a mutation\<close>

text \<open>
  C10. \<open>completeTask\<close> and \<open>deleteTask\<close> of js/task-manager.js are atomic on the mirror:
  when the task is in the mirror (and, for completion, not yet completed) and the
  adapter's \<open>updateTask\<close>, respectively \<open>deleteTask\<close>, returns false, the registry undoes
  its change of the mirror, so that the mirror after the call is the mirror before it,
  and the call returns null, respectively false.
\<close>

theorem C10_rollback:
  "(findIndex (\<lambda>t. id_task t = taskId) tasks = Some i \<and>
    status (tasks ! i) \<noteq> js ''completed'' \<and>
    \<not> fst (updateTask st taskId
             \<lparr>u_status = js ''completed'', u_completedAt = Some (Date now)\<rparr>) \<longrightarrow>
      fst (completeTask tasks st taskId rnd now) = None \<and>
      fst (snd (completeTask tasks st taskId rnd now)) = tasks) \<and>
   (findIndex (\<lambda>t. id_task t = taskId) tasks = Some i \<and>
    \<not> fst (deleteTask st taskId) \<longrightarrow>
      fst (deleteTask_tm tasks st taskId) = False \<and>
      fst (snd (deleteTask_tm tasks st taskId)) = tasks)"
  using completeTask_rollback[of taskId tasks i st now rnd]
    deleteTask_rollback[of taskId tasks i st]
  by blast

theorem C10_rollback_witness:
  "(findIndex (\<lambda>t. id_task t = js ''a'') [task_a] = Some 0 \<and>
    status ([task_a] ! 0) \<noteq> js ''completed'' \<and>
    \<not> fst (updateTask quota_browser (js ''a'')
             \<lparr>u_status = js ''completed'', u_completedAt = Some (Date 7)\<rparr>)) \<and>
   fst (completeTask [task_a] quota_browser (js ''a'') rnd0 7) = None \<and>
   fst (snd (completeTask [task_a] quota_browser (js ''a'') rnd0 7)) = [task_a] \<and>
   \<not> fst (deleteTask quota_browser (js ''a'')) \<and>
   fst (deleteTask_tm [task_a] quota_browser (js ''a'')) = False \<and>
   fst (snd (deleteTask_tm [task_a] quota_browser (js ''a''))) = [task_a]"
proof -
  have h1: "findIndex (\<lambda>t. id_task t = js ''a'') [task_a] = Some 0 \<and>
            status ([task_a] ! 0) \<noteq> js ''completed'' \<and>
            \<not> fst (updateTask quota_browser (js ''a'')
                     \<lparr>u_status = js ''completed'', u_completedAt = Some (Date 7)\<rparr>)"
    by code_simp
  have h2: "\<not> fst (deleteTask quota_browser (js ''a''))"
    by code_simp
  note inst = C10_rollback[of "js ''a''" "[task_a]" 0 quota_browser 7 rnd0]
  from inst h1 have c1: "fst (completeTask [task_a] quota_browser (js ''a'') rnd0 7) = None \<and>
      fst (snd (completeTask [task_a] quota_browser (js ''a'') rnd0 7)) = [task_a]"
    by blast
  from inst h1 h2 have c2: "fst (deleteTask_tm [task_a] quota_browser (js ''a'')) = False \<and>
      fst (snd (deleteTask_tm [task_a] quota_browser (js ''a''))) = [task_a]"
    by blast
  from h1 h2 c1 c2 show ?thesis
    by blast
qed



text \<open>
  C1, as amended. The two variants of the registry differ. In js/task-manager.js no
  mutating operation reloads: a successful \<open>addTask\<close> leaves the mirror as the old mirror
  with the created record appended, a successful \<open>completeTask\<close> as the old mirror with
  the record at the task's index replaced by the completed record, a successful
  \<open>deleteTask\<close> as the old mirror without the record at the task's index. In the variant
  of src/unnamed/part_000 every successful \<open>addTask\<close>, \<open>completeTask\<close> and \<open>deleteTask\<close>
  ends with a reload, and the mirror it leaves is what \<open>loadTasks\<close> of the adapter returns
  immediately afterwards.
\<close>

theorem C1_mirror_after_success:
  "(fst (addTask tasks st title auth rnd now) = Some r \<longrightarrow>
      fst (snd (addTask tasks st title auth rnd now)) = tasks @ [r]) \<and>
   (fst (completeTask tasks st taskId rnd now) = Some r \<longrightarrow>
      (\<exists>i. findIndex (\<lambda>t. id_task t = taskId) tasks = Some i \<and>
           fst (snd (completeTask tasks st taskId rnd now)) = tasks[i := r])) \<and>
   (fst (deleteTask_tm tasks st taskId) \<longrightarrow>
      (\<exists>i. findIndex (\<lambda>t. id_task t = taskId) tasks = Some i \<and>
           fst (snd (deleteTask_tm tasks st taskId)) = splice_out i tasks)) \<and>
   (fst (addTask_reload tasks st title auth rnd now) = Some r \<longrightarrow>
      fst (snd (addTask_reload tasks st title auth rnd now)) =
      fst (loadTasks (snd (snd (addTask_reload tasks st title auth rnd now))))) \<and>
   (fst (completeTask_reload tasks st taskId rnd now) = Some r \<longrightarrow>
      fst (snd (completeTask_reload tasks st taskId rnd now)) =
      fst (loadTasks (snd (snd (completeTask_reload tasks st taskId rnd now))))) \<and>
   (fst (deleteTask_reload tasks st taskId) \<longrightarrow>
      fst (snd (deleteTask_reload tasks st taskId)) =
      fst (loadTasks (snd (snd (deleteTask_reload tasks st taskId)))))"
proof (intro conjI impI)
  assume "fst (addTask tasks st title auth rnd now) = Some r"
  then have "addTask tasks st title auth rnd now =
               (Some r, fst (snd (addTask tasks st title auth rnd now)),
                snd (snd (addTask tasks st title auth rnd now)))"
    by (cases "addTask tasks st title auth rnd now") simp
  then show "fst (snd (addTask tasks st title auth rnd now)) = tasks @ [r]"
    by (rule addTask_patch)
next
  assume "fst (completeTask tasks st taskId rnd now) = Some r"
  then have "completeTask tasks st taskId rnd now =
               (Some r, fst (snd (completeTask tasks st taskId rnd now)),
                snd (snd (completeTask tasks st taskId rnd now)))"
    by (cases "completeTask tasks st taskId rnd now") simp
  then show "\<exists>i. findIndex (\<lambda>t. id_task t = taskId) tasks = Some i \<and>
           fst (snd (completeTask tasks st taskId rnd now)) = tasks[i := r]"
    by (rule completeTask_patch)
next
  assume "fst (deleteTask_tm tasks st taskId)"
  then have "deleteTask_tm tasks st taskId =
               (True, fst (snd (deleteTask_tm tasks st taskId)),
                snd (snd (deleteTask_tm tasks st taskId)))"
    by (cases "deleteTask_tm tasks st taskId") simp
  then show "\<exists>i. findIndex (\<lambda>t. id_task t = taskId) tasks = Some i \<and>
           fst (snd (deleteTask_tm tasks st taskId)) = splice_out i tasks"
    by (rule deleteTask_patch)
next
  assume "fst (addTask_reload tasks st title auth rnd now) = Some r"
  then have "addTask_reload tasks st title auth rnd now =
               (Some r, fst (snd (addTask_reload tasks st title auth rnd now)),
                snd (snd (addTask_reload tasks st title auth rnd now)))"
    by (cases "addTask_reload tasks st title auth rnd now") simp
  then show "fst (snd (addTask_reload tasks st title auth rnd now)) =
      fst (loadTasks (snd (snd (addTask_reload tasks st title auth rnd now))))"
    by (rule addTask_reload_synced)
next
  assume "fst (completeTask_reload tasks st taskId rnd now) = Some r"
  then have "completeTask_reload tasks st taskId rnd now =
               (Some r, fst (snd (completeTask_reload tasks st taskId rnd now)),
                snd (snd (completeTask_reload tasks st taskId rnd now)))"
    by (cases "completeTask_reload tasks st taskId rnd now") simp
  then show "fst (snd (completeTask_reload tasks st taskId rnd now)) =
      fst (loadTasks (snd (snd (completeTask_reload tasks st taskId rnd now))))"
    by (rule completeTask_reload_synced)
next
  assume "fst (deleteTask_reload tasks st taskId)"
  then have "deleteTask_reload tasks st taskId =
               (True, fst (snd (deleteTask_reload tasks st taskId)),
                snd (snd (deleteTask_reload tasks st taskId)))"
    by (cases "deleteTask_reload tasks st taskId") simp
  then show "fst (snd (deleteTask_reload tasks st taskId)) =
      fst (loadTasks (snd (snd (deleteTask_reload tasks st taskId))))"
    by (rule deleteTask_reload_synced)
qed

theorem C1_mirror_after_success_witness:
  "fst (addTask [] (browser empty_store empty_store) (Str (js ''a  b'')) (Str []) rnd0 0) =
     Some (toJSON (newTask (js ''a  b'') [] rnd0 0)) \<and>
   fst (snd (addTask [] (browser empty_store empty_store) (Str (js ''a  b'')) (Str []) rnd0 0)) =
     [] @ [toJSON (newTask (js ''a  b'') [] rnd0 0)] \<and>
   fst (completeTask [task_a] stocked_browser (js ''a'') rnd0 7) =
     Some (task_a\<lparr>status := js ''completed'', completedAt := Some (Date 7)\<rparr>) \<and>
   (\<exists>i. findIndex (\<lambda>t. id_task t = js ''a'') [task_a] = Some i \<and>
        fst (snd (completeTask [task_a] stocked_browser (js ''a'') rnd0 7)) =
        [task_a][i := task_a\<lparr>status := js ''completed'', completedAt := Some (Date 7)\<rparr>]) \<and>
   fst (deleteTask_tm [task_a] stocked_browser (js ''a'')) \<and>
   (\<exists>i. findIndex (\<lambda>t. id_task t = js ''a'') [task_a] = Some i \<and>
        fst (snd (deleteTask_tm [task_a] stocked_browser (js ''a''))) = splice_out i [task_a]) \<and>
   fst (addTask_reload [] (browser empty_store empty_store) (Str (js ''a  b'')) (Str []) rnd0 0) =
     Some (toJSON (newTask (js ''a  b'') [] rnd0 0)) \<and>
   fst (snd (addTask_reload [] (browser empty_store empty_store) (Str (js ''a  b'')) (Str [])
               rnd0 0)) =
     fst (loadTasks (snd (snd (addTask_reload [] (browser empty_store empty_store)
                                 (Str (js ''a  b'')) (Str []) rnd0 0)))) \<and>
   fst (completeTask_reload [task_a] stocked_browser (js ''a'') rnd0 7) =
     Some (task_a\<lparr>status := js ''completed'', completedAt := Some (Date 7)\<rparr>) \<and>
   fst (snd (completeTask_reload [task_a] stocked_browser (js ''a'') rnd0 7)) =
     fst (loadTasks (snd (snd (completeTask_reload [task_a] stocked_browser (js ''a'') rnd0 7)))) \<and>
   fst (deleteTask_reload [task_a] stocked_browser (js ''a'')) \<and>
   fst (snd (deleteTask_reload [task_a] stocked_browser (js ''a''))) =
     fst (loadTasks (snd (snd (deleteTask_reload [task_a] stocked_browser (js ''a'')))))"
proof -
  let ?r1 = "toJSON (newTask (js ''a  b'') [] rnd0 0)"
  let ?r2 = "task_a\<lparr>status := js ''completed'', completedAt := Some (Date 7)\<rparr>"
  have h1: "fst (addTask [] (browser empty_store empty_store) (Str (js ''a  b'')) (Str []) rnd0 0) =
              Some ?r1"
    by code_simp
  have h2: "fst (completeTask [task_a] stocked_browser (js ''a'') rnd0 7) = Some ?r2"
    by code_simp
  have h3: "fst (deleteTask_tm [task_a] stocked_browser (js ''a''))"
    by code_simp
  have h4: "fst (addTask_reload [] (browser empty_store empty_store) (Str (js ''a  b'')) (Str [])
                   rnd0 0) = Some ?r1"
    by code_simp
  have h5: "fst (completeTask_reload [task_a] stocked_browser (js ''a'') rnd0 7) = Some ?r2"
    by code_simp
  have h6: "fst (deleteTask_reload [task_a] stocked_browser (js ''a''))"
    by code_simp
  note add = C1_mirror_after_success[of "[]" "browser empty_store empty_store"
      "Str (js ''a  b'')" "Str []" rnd0 0 ?r1 "js ''a''"]
  note upd = C1_mirror_after_success[of "[task_a]" stocked_browser
      "Str (js ''a  b'')" "Str []" rnd0 7 ?r2 "js ''a''"]
  from add h1 have c1: "fst (snd (addTask [] (browser empty_store empty_store) (Str (js ''a  b''))
                                   (Str []) rnd0 0)) = [] @ [?r1]"
    by blast
  from upd h2 have c2: "\<exists>i. findIndex (\<lambda>t. id_task t = js ''a'') [task_a] = Some i \<and>
        fst (snd (completeTask [task_a] stocked_browser (js ''a'') rnd0 7)) = [task_a][i := ?r2]"
    by blast
  from upd h3 have c3: "\<exists>i. findIndex (\<lambda>t. id_task t = js ''a'') [task_a] = Some i \<and>
        fst (snd (deleteTask_tm [task_a] stocked_browser (js ''a''))) = splice_out i [task_a]"
    by blast
  from add h4 have c4: "fst (snd (addTask_reload [] (browser empty_store empty_store)
                                (Str (js ''a  b'')) (Str []) rnd0 0)) =
     fst (loadTasks (snd (snd (addTask_reload [] (browser empty_store empty_store)
                                 (Str (js ''a  b'')) (Str []) rnd0 0))))"
    by blast
  from upd h5 have c5: "fst (snd (completeTask_reload [task_a] stocked_browser (js ''a'') rnd0 7)) =
     fst (loadTasks (snd (snd (completeTask_reload [task_a] stocked_browser (js ''a'') rnd0 7))))"
    by blast
  from upd h6 have c6: "fst (snd (deleteTask_reload [task_a] stocked_browser (js ''a''))) =
     fst (loadTasks (snd (snd (deleteTask_reload [task_a] stocked_browser (js ''a'')))))"
    by blast
  from h1 h2 h3 h4 h5 h6 c1 c2 c3 c4 c5 c6 show ?thesis
    by (intro conjI)
qed

theorem C1_counterexample:
  "fst run_add_spaced \<noteq> None \<and>
   fst (snd run_add_spaced) \<noteq> fst (loadTasks (snd (snd run_add_spaced))) \<and>
   map bookTitle (fst (snd run_add_spaced)) = [js ''a  b''] \<and>
   map bookTitle (fst (loadTasks (snd (snd run_add_spaced)))) = [js ''a b'']"
  by code_simp

section \<open>Storage adapter: store selection and loading\<close>

text \<open>
  C5, as amended. The adapter probes the primary store again in every operation:
  \<open>getStorage\<close> returns the primary store exactly when the probe's write is accepted at
  that moment, and the fallback store otherwise, whatever was selected before. What is
  permanent is the indicator: a failed probe sets \<open>fallbackToSession\<close>, and once it is
  set it stays set through every operation of the adapter, so that \<open>getStorageInfo\<close>
  keeps reporting the fallback store.
\<close>

theorem C5_store_selection:
  "fst (getStorage st) =
     (if accepts (localStorage st) storage_test Unparsable then LocalStorage
      else SessionStorage) \<and>
   (\<not> accepts (localStorage st) storage_test Unparsable \<longrightarrow>
      fallbackToSession (snd (getStorage st))) \<and>
   (fallbackToSession st \<longrightarrow>
      fallbackToSession (snd (getStorage st)) \<and>
      fallbackToSession (snd (loadTasks st)) \<and>
      fallbackToSession (snd (saveTasks st ts)) \<and>
      fallbackToSession (snd (saveTask st t)) \<and>
      fallbackToSession (snd (updateTask st taskId u)) \<and>
      fallbackToSession (snd (deleteTask st taskId)) \<and>
      fallbackToSession (snd (clearAllTasks st)) \<and>
      fallbackToSession (snd (getStorageInfo st)) \<and>
      storageType (fst (getStorageInfo st)) = SessionStorage)"
proof (intro conjI impI)
  show "fst (getStorage st) =
     (if accepts (localStorage st) storage_test Unparsable then LocalStorage
      else SessionStorage)"
    by (rule getStorage_choice)
next
  assume "\<not> accepts (localStorage st) storage_test Unparsable"
  then show "fallbackToSession (snd (getStorage st))"
    by (simp add: getStorage_session)
next
  assume f: "fallbackToSession st"
  show "fallbackToSession (snd (getStorage st))"
    by (rule getStorage_flag[OF f])
  show "fallbackToSession (snd (loadTasks st))"
    by (rule loadTasks_flag[OF f])
  show "fallbackToSession (snd (saveTasks st ts))"
    by (rule saveTasks_flag[OF f])
  show "fallbackToSession (snd (saveTask st t))"
    by (rule saveTask_flag[OF f])
  show "fallbackToSession (snd (updateTask st taskId u))"
    by (rule updateTask_flag[OF f])
  show "fallbackToSession (snd (deleteTask st taskId))"
    by (rule deleteTask_flag[OF f])
  show "fallbackToSession (snd (clearAllTasks st))"
    by (rule clearAllTasks_flag[OF f])
  from getStorageInfo_flag[OF f]
  show "fallbackToSession (snd (getStorageInfo st))"
    and "storageType (fst (getStorageInfo st)) = SessionStorage"
    by simp_all
qed

theorem C5_store_selection_witness:
  "\<not> accepts (localStorage fallback_browser) storage_test Unparsable \<and>
   fst (getStorage fallback_browser) = SessionStorage \<and>
   fallbackToSession (snd (getStorage fallback_browser)) \<and>
   fallbackToSession (primary_recovers (snd (getStorage fallback_browser))) \<and>
   accepts (localStorage (primary_recovers (snd (getStorage fallback_browser))))
     storage_test Unparsable \<and>
   fst (getStorage (primary_recovers (snd (getStorage fallback_browser)))) = LocalStorage \<and>
   fallbackToSession (snd (loadTasks (primary_recovers (snd (getStorage fallback_browser))))) \<and>
   storageType (fst (getStorageInfo (primary_recovers (snd (getStorage fallback_browser))))) =
     SessionStorage"
proof -
  let ?st = "primary_recovers (snd (getStorage fallback_browser))"
  have h1: "\<not> accepts (localStorage fallback_browser) storage_test Unparsable"
    by code_simp
  have h2: "fallbackToSession ?st"
    by code_simp
  have h3: "accepts (localStorage ?st) storage_test Unparsable"
    by code_simp
  note first = C5_store_selection[of fallback_browser "[]" task_a "[]"
      "\<lparr>u_status = [], u_completedAt = None\<rparr>"]
  note later = C5_store_selection[of ?st "[]" task_a "[]"
      "\<lparr>u_status = [], u_completedAt = None\<rparr>"]
  from first h1 have c1: "fst (getStorage fallback_browser) = SessionStorage"
    by simp
  from first h1 have c2: "fallbackToSession (snd (getStorage fallback_browser))"
    by blast
  from later h3 have c3: "fst (getStorage ?st) = LocalStorage"
    by simp
  from later h2 have c4: "fallbackToSession (snd (loadTasks ?st))"
    by blast
  from later h2 have c5: "storageType (fst (getStorageInfo ?st)) = SessionStorage"
    by blast
  from h1 h2 h3 c1 c2 c3 c4 c5 show ?thesis
    by (intro conjI)
qed

theorem C5_counterexample:
  "fst (getStorage fallback_browser) = SessionStorage \<and>
   fallbackToSession (snd (loadTasks fallback_browser)) \<and>
   fst (loadTasks fallback_browser) = [] \<and>
   fst (getStorage (primary_recovers (snd (loadTasks fallback_browser)))) = LocalStorage \<and>
   fst (loadTasks (primary_recovers (snd (loadTasks fallback_browser)))) = [task_a]"
  by code_simp



section \<open>Auxiliary facts on texts and patterns\<close>

lemma replaceFrom_set: "set (replaceFrom r rep s src li) \<subseteq> set s \<union> set rep"
proof (induction r rep s src li rule: replaceFrom.induct)
  case (1 r rep s src li)
  show ?case
  proof (cases "search r s li")
    case None
    then show ?thesis
      by (subst replaceFrom.simps) (auto dest: in_set_dropD)
  next
    case (Some p)
    obtain st en where p: "p = (st, en)" by (cases p)
    from "1.IH"[OF Some p[symmetric]]
    have "set (replaceFrom r rep s en (if en \<le> st then Suc st else en)) \<subseteq> set s \<union> set rep" .
    with Some p show ?thesis
      by (subst replaceFrom.simps) (auto dest: in_set_dropD in_set_takeD)
  qed
qed

lemma replaceAll_set: "set (replaceAll r rep s) \<subseteq> set s \<union> set rep"
  by (simp add: replaceAll_def replaceFrom_set)

lemma removePatterns_set: "set (foldl (\<lambda>acc pattern. replaceAll pattern [] acc) s ps) \<subseteq> set s"
proof (induction ps arbitrary: s)
  case Nil
  then show ?case by simp
next
  case (Cons p ps)
  from Cons.IH[of "replaceAll p [] s"] replaceAll_set[of p "[]" s] show ?case
    by auto
qed

lemma search_Sat_None:
  "search (Sat P) s i = None \<Longrightarrow> i \<le> j \<Longrightarrow> j < length s \<Longrightarrow> \<not> P (s ! j)"
proof (induction "Sat P" s i rule: search.induct)
  case (1 s i)
  from "1.prems" have il: "\<not> length s < i" by simp
  show ?case
  proof (cases "i < length s \<and> P (s ! i)")
    case True
    with il "1.prems"(1) show ?thesis
      by (simp add: search.simps[of "Sat P" s i])
  next
    case False
    with il "1.prems"(1) have nx: "search (Sat P) s (Suc i) = None"
      by (simp add: search.simps[of "Sat P" s i])
    show ?thesis
    proof (cases "j = i")
      case True
      with False "1.prems" show ?thesis by simp
    next
      case ne: False
      with "1.prems" have "Suc i \<le> j" by simp
      from "1.hyps"[OF il _ nx this "1.prems"(3)] False show ?thesis by simp
    qed
  qed
qed

lemma search_Sat_Some:
  "search (Sat P) s i = Some (st, en) \<Longrightarrow>
     en = Suc st \<and> i \<le> st \<and> st < length s \<and> P (s ! st) \<and> (\<forall>j. i \<le> j \<and> j < st \<longrightarrow> \<not> P (s ! j))"
proof (induction "Sat P" s i rule: search.induct)
  case (1 s i)
  from "1.prems" have il: "\<not> length s < i"
    by (auto simp add: search.simps[of "Sat P" s i] split: if_splits)
  show ?case
  proof (cases "i < length s \<and> P (s ! i)")
    case True
    with il "1.prems"(1) show ?thesis
      by (auto simp add: search.simps[of "Sat P" s i])
  next
    case False
    with il "1.prems"(1) have nx: "search (Sat P) s (Suc i) = Some (st, en)"
      by (simp add: search.simps[of "Sat P" s i])
    from "1.hyps"[OF il _ nx] False
    have ih: "en = Suc st \<and> Suc i \<le> st \<and> st < length s \<and> P (s ! st) \<and>
              (\<forall>j. Suc i \<le> j \<and> j < st \<longrightarrow> \<not> P (s ! j))"
      by simp
    have ni: "\<not> P (s ! i)"
      using False ih by auto
    have "\<not> P (s ! j)" if "i \<le> j \<and> j < st" for j
    proof (cases "j = i")
      case True
      with ni show ?thesis by simp
    next
      case False
      with that have "Suc i \<le> j \<and> j < st" by simp
      with ih show ?thesis by blast
    qed
    with ih show ?thesis
      by simp
  qed
qed

lemma concat_keep:
  "\<forall>c \<in> set xs. \<not> P c \<Longrightarrow> concat (map (\<lambda>c. if P c then rep else [c]) xs) = xs"
  by (induction xs) simp_all

lemma replaceFrom_Sat:
  "i \<le> length s \<Longrightarrow>
   replaceFrom (Sat P) rep s i i = concat (map (\<lambda>c. if P c then rep else [c]) (drop i s))"
proof (induction "length s - i" arbitrary: i rule: less_induct)
  case less
  show ?case
  proof (cases "search (Sat P) s i")
    case None
    from search_Sat_None[OF None]
    have "\<forall>c \<in> set (drop i s). \<not> P c"
      by (auto simp add: in_set_conv_nth)
    then have "concat (map (\<lambda>c. if P c then rep else [c]) (drop i s)) = drop i s"
      by (rule concat_keep)
    with None show ?thesis
      by (subst replaceFrom.simps) simp
  next
    case (Some p)
    obtain st en where p: "p = (st, en)" by (cases p)
    from search_Sat_Some[OF Some[unfolded p]]
    have en: "en = Suc st" and ist: "i \<le> st" and stl: "st < length s" and pst: "P (s ! st)"
      and before: "\<forall>j. i \<le> j \<and> j < st \<longrightarrow> \<not> P (s ! j)"
      by simp_all
    have split: "drop i s = take (st - i) (drop i s) @ s ! st # drop (Suc st) s"
      using ist stl
      by (metis Cons_nth_drop_Suc add_diff_inverse_nat append_take_drop_id drop_drop
          le_add_diff_inverse2 not_less add.commute)
    have pre: "\<forall>c \<in> set (take (st - i) (drop i s)). \<not> P c"
      using before ist stl by (auto simp add: in_set_conv_nth)
    then have pre_id: "concat (map (\<lambda>c. if P c then rep else [c]) (take (st - i) (drop i s))) =
                  take (st - i) (drop i s)"
      by (rule concat_keep)
    have ih: "replaceFrom (Sat P) rep s (Suc st) (Suc st) =
                concat (map (\<lambda>c. if P c then rep else [c]) (drop (Suc st) s))"
      using less.hyps[of "Suc st"] ist stl less.prems by simp
    have "replaceFrom (Sat P) rep s i i =
            take (st - i) (drop i s) @ rep @ replaceFrom (Sat P) rep s (Suc st) (Suc st)"
      using Some p en by (subst replaceFrom.simps) simp
    also have "\<dots> = concat (map (\<lambda>c. if P c then rep else [c])
                        (take (st - i) (drop i s) @ s ! st # drop (Suc st) s))"
      using pre_id pst ih by simp
    finally show ?thesis
      using split by simp
  qed
qed

lemma replaceAll_Sat: "replaceAll (Sat P) rep s = concat (map (\<lambda>c. if P c then rep else [c]) s)"
  using replaceFrom_Sat[of 0 s P rep] by (simp add: replaceAll_def)

lemma stripControl_filter: "replaceAll (Sat isControl) [] s = filter (\<lambda>c. \<not> isControl c) s"
  by (simp add: replaceAll_Sat) (induction s, auto)

lemma replaceAll_lit: "replaceAll (lit c) rep s = replaceChar c rep s"
  by (simp add: lit_def replaceAll_Sat replaceChar_def)

lemma dropWhile_hd: "dropWhile P xs \<noteq> [] \<Longrightarrow> \<not> P (hd (dropWhile P xs))"
  by (metis hd_dropWhile)

lemma dropWhile_last: "dropWhile P xs \<noteq> [] \<Longrightarrow> last (dropWhile P xs) = last xs"
  by (induction xs) (auto split: if_splits)

lemma trim_trimmed: "trimmed (trim s)"
proof (cases "trim s = []")
  case True
  then show ?thesis by (simp add: trimmed_def)
next
  case False
  let ?a = "dropWhile isWhiteSpace s"
  let ?b = "dropWhile isWhiteSpace (rev ?a)"
  from False have b: "?b \<noteq> []" by (simp add: trim_def)
  have a: "?a \<noteq> []"
  proof
    assume "?a = []"
    then have "?b = []" by (simp only: rev.simps dropWhile.simps)
    with b show False by simp
  qed
  from dropWhile_hd[OF b] have "\<not> isWhiteSpace (hd ?b)" .
  with b have l: "\<not> isWhiteSpace (last (trim s))"
    by (simp add: trim_def last_rev)
  from dropWhile_last[OF b] a have "last ?b = hd ?a"
    by (simp add: last_rev)
  with dropWhile_hd[OF a] b have "\<not> isWhiteSpace (hd (trim s))"
    by (simp add: trim_def hd_rev)
  with l show ?thesis by (simp add: trimmed_def)
qed

lemma trim_id: "trimmed s \<Longrightarrow> trim s = s"
proof (cases s)
  case Nil
  then show ?thesis by (simp add: trim_def)
next
  case (Cons x xs)
  assume "trimmed s"
  with Cons have h: "\<not> isWhiteSpace x" and l: "\<not> isWhiteSpace (last s)"
    by (simp_all add: trimmed_def)
  from h Cons have 1: "dropWhile isWhiteSpace s = s" by simp
  from Cons have "rev s \<noteq> []" by simp
  then obtain y ys where r: "rev s = y # ys" by (cases "rev s") auto
  with Cons have "y = last s" by (metis hd_rev list.sel(1) list.distinct(1))
  with l have "\<not> isWhiteSpace y" by simp
  then have "dropWhile isWhiteSpace (y # ys) = y # ys" by simp
  with r have "dropWhile isWhiteSpace (rev s) = rev s" by simp
  with 1 show ?thesis by (simp add: trim_def)
qed

lemma replaceChar_absent: "c \<notin> set s \<Longrightarrow> replaceChar c rep s = s"
  by (induction s) (auto simp add: replaceChar_def)

lemma replaceChar_set: "set (replaceChar c rep s) \<subseteq> (set s - {c}) \<union> set rep"
  by (induction s) (auto simp add: replaceChar_def)

lemma replaceChar_trimmed:
  assumes "trimmed s" and "rep \<noteq> []" and "\<not> isWhiteSpace (hd rep)" and "\<not> isWhiteSpace (last rep)"
  shows "trimmed (replaceChar c rep s)"
proof (cases s rule: rev_cases)
  case Nil
  then show ?thesis by (simp add: replaceChar_def trimmed_def)
next
  case (snoc ys y)
  from assms(1) snoc have ly: "\<not> isWhiteSpace y" by (simp add: trimmed_def)
  have ne: "replaceChar c rep s \<noteq> []"
    using snoc assms(2) by (simp add: replaceChar_def)
  have lastr: "last (replaceChar c rep s) = (if y = c then last rep else y)"
    using snoc assms(2) by (simp add: replaceChar_def)
  have hdr: "\<not> isWhiteSpace (hd (replaceChar c rep s))"
  proof (cases s)
    case Nil
    with snoc show ?thesis by simp
  next
    case (Cons x xs)
    with assms(1) have "\<not> isWhiteSpace x" by (simp add: trimmed_def)
    with Cons assms(2,3) show ?thesis by (simp add: replaceChar_def)
  qed
  from ne lastr hdr ly assms(4) show ?thesis
    by (simp add: trimmed_def)
qed

lemma entity_chars:
  "set (js ''&lt;'') = {38, 108, 116, 59}"
  "set (js ''&gt;'') = {38, 103, 116, 59}"
  "set (js ''&quot;'') = {38, 113, 117, 111, 116, 59}"
  "set (js ''&#x27;'') = {38, 35, 120, 50, 55, 59}"
  "set (js ''&#x2F;'') = {38, 35, 120, 50, 70, 59}"
  by (auto simp add: js_def)

lemma TaskValidator_chain:
  "TaskValidator_sanitizeInput (Str s) =
     replaceChar 47 (js ''&#x2F;'')
       (replaceChar 39 (js ''&#x27;'')
         (replaceChar 34 (js ''&quot;'')
           (replaceChar 62 (js ''&gt;'')
             (replaceChar 60 (js ''&lt;'') (trim s)))))"
  by (simp add: replaceAll_lit)

lemma TaskValidator_clean:
  "set (TaskValidator_sanitizeInput v) \<inter> {60, 62, 34, 39, 47} = {}"
proof (cases v)
  case NotStr
  then show ?thesis by simp
next
  case (Str s)
  let ?s1 = "replaceChar 60 (js ''&lt;'') (trim s)"
  let ?s2 = "replaceChar 62 (js ''&gt;'') ?s1"
  let ?s3 = "replaceChar 34 (js ''&quot;'') ?s2"
  let ?s4 = "replaceChar 39 (js ''&#x27;'') ?s3"
  let ?s5 = "replaceChar 47 (js ''&#x2F;'') ?s4"
  have 1: "60 \<notin> set ?s1"
    using replaceChar_set[of 60 "js ''&lt;''" "trim s"] by (auto simp add: entity_chars)
  have 2: "60 \<notin> set ?s2 \<and> 62 \<notin> set ?s2"
    using replaceChar_set[of 62 "js ''&gt;''" ?s1] 1 by (auto simp add: entity_chars)
  have 3: "60 \<notin> set ?s3 \<and> 62 \<notin> set ?s3 \<and> 34 \<notin> set ?s3"
    using replaceChar_set[of 34 "js ''&quot;''" ?s2] 2 by (auto simp add: entity_chars)
  have 4: "60 \<notin> set ?s4 \<and> 62 \<notin> set ?s4 \<and> 34 \<notin> set ?s4 \<and> 39 \<notin> set ?s4"
    using replaceChar_set[of 39 "js ''&#x27;''" ?s3] 3 by (auto simp add: entity_chars)
  have 5: "60 \<notin> set ?s5 \<and> 62 \<notin> set ?s5 \<and> 34 \<notin> set ?s5 \<and> 39 \<notin> set ?s5 \<and> 47 \<notin> set ?s5"
    using replaceChar_set[of 47 "js ''&#x2F;''" ?s4] 4 by (auto simp add: entity_chars)
  with Str show ?thesis by (simp add: replaceAll_lit)
qed

lemma entity_trim:
  "js ''&lt;'' \<noteq> [] \<and> \<not> isWhiteSpace (hd (js ''&lt;'')) \<and> \<not> isWhiteSpace (last (js ''&lt;''))"
  "js ''&gt;'' \<noteq> [] \<and> \<not> isWhiteSpace (hd (js ''&gt;'')) \<and> \<not> isWhiteSpace (last (js ''&gt;''))"
  "js ''&quot;'' \<noteq> [] \<and> \<not> isWhiteSpace (hd (js ''&quot;'')) \<and> \<not> isWhiteSpace (last (js ''&quot;''))"
  "js ''&#x27;'' \<noteq> [] \<and> \<not> isWhiteSpace (hd (js ''&#x27;'')) \<and> \<not> isWhiteSpace (last (js ''&#x27;''))"
  "js ''&#x2F;'' \<noteq> [] \<and> \<not> isWhiteSpace (hd (js ''&#x2F;'')) \<and> \<not> isWhiteSpace (last (js ''&#x2F;''))"
  by (simp_all add: js_def isWhiteSpace_def)

lemma TaskValidator_trimmed: "trimmed (TaskValidator_sanitizeInput v)"
proof (cases v)
  case NotStr
  then show ?thesis by (simp add: trimmed_def)
next
  case (Str s)
  show ?thesis
    unfolding Str TaskValidator_chain
    by (intro replaceChar_trimmed trim_trimmed) (simp_all add: entity_trim)
qed

lemma escapeHtml_set: "60 \<notin> set (escapeHtml t) \<and> 62 \<notin> set (escapeHtml t)"
  by (induction t) (auto simp add: escapeHtml_def js_def)

lemma sanitizeInput_text_stages:
  "sanitizeInput_text s =
     removePatterns (collapseWhitespace (stripControl (escapeHtml (trim s))))"
  by (simp add: sanitizeInput_text_def removePatterns_def collapseWhitespace_def
      stripControl_def)

lemma sanitizeInput_text_clean:
  assumes "c \<in> set (sanitizeInput_text s)"
  shows "\<not> isControl c \<and> c \<noteq> 60 \<and> c \<noteq> 62"
proof -
  let ?t1 = "escapeHtml (trim s)"
  let ?t2 = "stripControl ?t1"
  let ?t3 = "collapseWhitespace ?t2"
  from assms have "c \<in> set (removePatterns ?t3)"
    by (simp add: sanitizeInput_text_stages)
  with removePatterns_set[of ?t3 xssPatterns] have "c \<in> set ?t3"
    by (auto simp add: removePatterns_def)
  with replaceAll_set[of "many1 (Sat isWhiteSpace)" "js '' ''" ?t2]
  have "c \<in> set ?t2 \<or> c = 32"
    by (auto simp add: collapseWhitespace_def js_def)
  then show ?thesis
  proof
    assume "c \<in> set ?t2"
    then have "c \<in> set ?t1" and "\<not> isControl c"
      by (simp_all add: stripControl_def stripControl_filter)
    with escapeHtml_set[of "trim s"] show ?thesis by auto
  next
    assume "c = 32"
    then show ?thesis by (simp add: isControl_def)
  qed
qed

lemma containsXSS_fst:
  "xssLastIndex a = xssLastIndex b \<Longrightarrow> fst (containsXSS a x) = fst (containsXSS b x)"
  by (simp add: containsXSS_def split: prod.splits)

text \<open>
  \<open>validateField\<close> itself is repeatable on an instance with the constructor's rules: it
  calls \<open>sanitizeInput\<close> first, whose global \<open>replace\<close> leaves every \<open>lastIndex\<close> at 0 before
  \<open>containsXSS\<close> runs, so its result does not depend on the state the instance is in.
\<close>

lemma validateField_repeatable:
  "fst (validateField iv fieldName v) = fst (validateField iv' fieldName v)"
proof (cases "validationRules fieldName")
  case None
  then show ?thesis by (simp add: validateField_def)
next
  case (Some rule)
  show ?thesis
  proof (cases v)
    case NotStr
    with Some show ?thesis
      by (simp add: validateField_def isEmpty_def)
  next
    case (Str s)
    let ?iv1 = "iv\<lparr>xssLastIndex := map (\<lambda>p. 0) xssPatterns\<rparr>"
    let ?iv1' = "iv'\<lparr>xssLastIndex := map (\<lambda>p. 0) xssPatterns\<rparr>"
    obtain x iv2 where a: "containsXSS ?iv1 (sanitizeInput_text s) = (x, iv2)"
      by (cases "containsXSS ?iv1 (sanitizeInput_text s)")
    obtain x' iv2' where b: "containsXSS ?iv1' (sanitizeInput_text s) = (x', iv2')"
      by (cases "containsXSS ?iv1' (sanitizeInput_text s)")
    have "fst (containsXSS ?iv1 (sanitizeInput_text s)) =
          fst (containsXSS ?iv1' (sanitizeInput_text s))"
      by (rule containsXSS_fst) simp
    with a b have "x = x'" by simp
    with Some Str a b show ?thesis
      by (simp add: validateField_def Let_def)
  qed
qed

section \<open>Validation and sanitization\<close>

text \<open>
  C2, as amended. \<open>TaskValidator.sanitizeInput\<close>, the sanitizer that \<open>addTask\<close> applies to
  title and author, is idempotent: for every argument, sanitizing its result again
  returns that result. (\<open>InputValidator.sanitizeInput\<close> is not idempotent: it escapes the
  ampersand of an entity it has written itself.)
\<close>

theorem C2_TaskValidator_idempotent:
  "TaskValidator_sanitizeInput (Str (TaskValidator_sanitizeInput v)) =
   TaskValidator_sanitizeInput v"
proof -
  let ?u = "TaskValidator_sanitizeInput v"
  from TaskValidator_clean[of v]
  have "60 \<notin> set ?u" "62 \<notin> set ?u" "34 \<notin> set ?u" "39 \<notin> set ?u" "47 \<notin> set ?u"
    by auto
  then show ?thesis
    by (simp add: replaceAll_lit trim_id[OF TaskValidator_trimmed] replaceChar_absent)
qed

theorem C2_TaskValidator_idempotent_witness:
  "TaskValidator_sanitizeInput (Str (js '' <b>Tom & Jerry</b> '')) =
     js ''&lt;b&gt;Tom & Jerry&lt;&#x2F;b&gt;'' \<and>
   TaskValidator_sanitizeInput (Str (TaskValidator_sanitizeInput
                                       (Str (js '' <b>Tom & Jerry</b> '')))) =
     js ''&lt;b&gt;Tom & Jerry&lt;&#x2F;b&gt;''"
proof -
  have e: "TaskValidator_sanitizeInput (Str (js '' <b>Tom & Jerry</b> '')) =
             js ''&lt;b&gt;Tom & Jerry&lt;&#x2F;b&gt;''"
    by code_simp
  from C2_TaskValidator_idempotent[of "Str (js '' <b>Tom & Jerry</b> '')"] e
  have "TaskValidator_sanitizeInput (Str (TaskValidator_sanitizeInput
                                            (Str (js '' <b>Tom & Jerry</b> '')))) =
          js ''&lt;b&gt;Tom & Jerry&lt;&#x2F;b&gt;''"
    by (rule trans)
  with e show ?thesis
    by (intro conjI)
qed

theorem C2_counterexample:
  "fst (sanitizeInput newInputValidator (Str (js ''&''))) = js ''&amp;'' \<and>
   fst (sanitizeInput newInputValidator
          (Str (fst (sanitizeInput newInputValidator (Str (js ''&'')))))) = js ''&amp;amp;'' \<and>
   fst (sanitizeInput newInputValidator
          (Str (fst (sanitizeInput newInputValidator (Str (js ''&'')))))) \<noteq>
   fst (sanitizeInput newInputValidator (Str (js ''&'')))"
  by code_simp

text \<open>
  C3, as amended. \<open>InputValidator.sanitizeInput\<close> applies, in this order: trim; HTML-escape
  of the ampersand, the no-break space and the two angle brackets (quotes are not
  escaped); strip the ASCII control characters, which deletes each of them; collapse
  every run of white space to one space; remove the patterns of \<open>xssPatterns\<close> in the
  order of the list. Its result contains no control character and no angle bracket.
  \<open>TaskValidator.sanitizeInput\<close> trims and then replaces each of the characters
  \<open><\<close>, \<open>>\<close>, \<open>"\<close>, \<open>'\<close> and \<open>/\<close> by its entity, in this order, and does nothing else; its
  result contains none of these five characters.
\<close>

theorem C3_pipeline_order:
  "fst (sanitizeInput iv (Str s)) =
     removePatterns (collapseWhitespace (stripControl (escapeHtml (trim s)))) \<and>
   stripControl (escapeHtml (trim s)) = filter (\<lambda>c. \<not> isControl c) (escapeHtml (trim s)) \<and>
   (\<forall>c \<in> set (fst (sanitizeInput iv (Str s))). \<not> isControl c \<and> c \<noteq> 60 \<and> c \<noteq> 62) \<and>
   TaskValidator_sanitizeInput (Str s) =
     replaceChar 47 (js ''&#x2F;'')
       (replaceChar 39 (js ''&#x27;'')
         (replaceChar 34 (js ''&quot;'')
           (replaceChar 62 (js ''&gt;'')
             (replaceChar 60 (js ''&lt;'') (trim s))))) \<and>
   set (TaskValidator_sanitizeInput (Str s)) \<inter> {60, 62, 34, 39, 47} = {}"
proof (intro conjI ballI)
  show "fst (sanitizeInput iv (Str s)) =
     removePatterns (collapseWhitespace (stripControl (escapeHtml (trim s))))"
    by (simp add: sanitizeInput_text_stages)
  show "stripControl (escapeHtml (trim s)) = filter (\<lambda>c. \<not> isControl c) (escapeHtml (trim s))"
    by (simp add: stripControl_def stripControl_filter)
  show "TaskValidator_sanitizeInput (Str s) =
     replaceChar 47 (js ''&#x2F;'')
       (replaceChar 39 (js ''&#x27;'')
         (replaceChar 34 (js ''&quot;'')
           (replaceChar 62 (js ''&gt;'')
             (replaceChar 60 (js ''&lt;'') (trim s)))))"
    by (rule TaskValidator_chain)
  show "set (TaskValidator_sanitizeInput (Str s)) \<inter> {60, 62, 34, 39, 47} = {}"
    by (rule TaskValidator_clean)
next
  fix c
  assume "c \<in> set (fst (sanitizeInput iv (Str s)))"
  then have c: "c \<in> set (sanitizeInput_text s)"
    by simp
  from sanitizeInput_text_clean[OF c]
  show "\<not> isControl c" and "c \<noteq> 60" and "c \<noteq> 62"
    by simp_all
qed

theorem C3_pipeline_order_witness:
  "fst (sanitizeInput newInputValidator (Str tab_text)) = js ''ab'' \<and>
   98 \<in> set (fst (sanitizeInput newInputValidator (Str tab_text))) \<and>
   \<not> isControl 98 \<and>
   removePatterns (collapseWhitespace (stripControl (escapeHtml (trim tab_text)))) = js ''ab''"
proof -
  have e: "fst (sanitizeInput newInputValidator (Str tab_text)) = js ''ab''"
    by code_simp
  have m: "98 \<in> set (fst (sanitizeInput newInputValidator (Str tab_text)))"
    by code_simp
  note inst = C3_pipeline_order[of newInputValidator tab_text]
  note stages = inst[THEN conjunct1]
  note clean = inst[THEN conjunct2, THEN conjunct2, THEN conjunct1]
  from bspec[OF clean m] have c: "\<not> isControl 98"
    by (rule conjunct1)
  from stages[symmetric] e
  have p: "removePatterns (collapseWhitespace (stripControl (escapeHtml (trim tab_text)))) =
             js ''ab''"
    by (rule trans)
  from e m c p show ?thesis
    by (intro conjI)
qed

theorem C3_counterexample:
  "fst (sanitizeInput newInputValidator (Str tab_text)) = js ''ab'' \<and>
   spec_pipeline tab_text = js ''a b'' \<and>
   fst (sanitizeInput newInputValidator (Str tab_text)) \<noteq> spec_pipeline tab_text \<and>
   TaskValidator_sanitizeInput (Str tab_text) \<noteq> spec_pipeline tab_text"
  by code_simp

text \<open>
  C9. \<open>containsXSS\<close> is not repeatable: its patterns carry the \<open>g\<close> flag and belong to
  the instance, so \<open>test\<close> resumes at the \<open>lastIndex\<close> that the previous call left. On a
  new instance the first call with the text \<open>javascript:\<close> returns true, and the
  second call with the same text returns false.
\<close>

theorem C9_containsXSS_not_repeatable:
  "fst (containsXSS newInputValidator (js ''javascript:'')) \<and>
   \<not> fst (containsXSS (snd (containsXSS newInputValidator (js ''javascript:'')))
            (js ''javascript:''))"
  by code_simp

end
